theory Spec2Isabelle
  imports Main
begin

section \<open>Data model\<close>

text \<open>
  Identifiers (MongoDB ObjectIds, socket ids) are natural numbers; a \<open>Date\<close> is its number
  of milliseconds since the epoch; a JavaScript string is its list of UTF-16 code units.
\<close>

type_synonym user_id = nat
type_synonym time = int
type_synonym jsstring = "nat list"

text \<open>
  A handler reads the wall clock several times (\<open>Date.now()\<close>, \<open>new Date()\<close>, the schema
  default of \<open>timestamp\<close>). A clock gives the handler its k-th reading.
\<close>

type_synonym clock = "nat \<Rightarrow> time"

text \<open>The message schema: \<open>status\<close> is one of "sent", "delivered", "read" (default "sent"),
  \<open>deliveredAt\<close> and \<open>readAt\<close> default to null.\<close>

datatype status = Sent | Delivered | Read

record message =
  mid :: nat
  chatId :: nat
  sender :: user_id
  receiver :: user_id
  content :: jsstring
  timestamp :: time
  status :: status
  deliveredAt :: "time option"
  readAt :: "time option"

text \<open>The chat schema, without its two dates (\<open>createdAt\<close>, \<open>updatedAt\<close>), which no handler
  modelled here reads.\<close>

record chat =
  cid :: nat
  participants :: "user_id list"

text \<open>A connected socket as the authentication middleware leaves it: \<open>socket.userId\<close> and
  \<open>socket.userInfo.fullName\<close>.\<close>

record socket =
  sid :: nat
  userId :: user_id
  fullName :: jsstring

text \<open>
  The server: the two collections, \<open>io.sockets.sockets\<close> in its insertion order,
  \<open>global.onlineUsers\<close> (an undefined set behaves as the empty one: \<open>has\<close> and \<open>delete\<close>
  are guarded), whether \<open>POST /api/messages/read\<close> is registered (the route is declared
  inside the connection handler), and the next fresh ObjectId.
\<close>

record server =
  chats :: "chat list"
  messages :: "message list"
  sockets :: "socket list"
  onlineUsers :: "user_id set"
  readRoute :: bool
  nextId :: nat

definition init_server :: server where
  "init_server = \<lparr>chats = [], messages = [], sockets = [], onlineUsers = {},
     readRoute = False, nextId = 0\<rparr>"

text \<open>What a handler emits on a socket, by event name.\<close>

datatype payload =
    MessageSent nat nat jsstring time
  | MessageSentFailed
  | ChatUpdated nat user_id jsstring jsstring time
  | NewMessage nat jsstring user_id jsstring time nat user_id status
  | MessageDelivered nat time
  | MessageRead nat user_id "jsstring option" time nat
  | UserOnline user_id time
  | UserOffline user_id time

type_synonym emission = "nat \<times> payload"

text \<open>The outcome of the \<open>Authorization\<close> header: absent (401), a token that
  \<open>jwt.verify\<close> rejects by throwing, or a token for a user.\<close>

datatype auth = NoToken | InvalidToken | ValidToken user_id

datatype http_response =
    Unauthorized
  | BadRequest
  | NotFound
  | ServerError
  | SendOk nat nat
  | DeliveredOk nat
  | AlreadyUpdated nat status
  | ReadOk nat nat nat

section \<open>Library behaviour the handlers rely on\<close>

text \<open>\<open>String.prototype.trim\<close>: strips WhiteSpace and LineTerminator code units from both
  ends.\<close>

definition isWhiteSpace :: "nat \<Rightarrow> bool" where
  "isWhiteSpace c \<longleftrightarrow>
     c \<in> set [9, 10, 11, 12, 13, 32, 160, 5760, 8232, 8233, 8239, 8287, 12288, 65279]
     \<or> (8192 \<le> c \<and> c \<le> 8202)"

definition trim :: "jsstring \<Rightarrow> jsstring" where
  "trim s = rev (dropWhile isWhiteSpace (rev (dropWhile isWhiteSpace s)))"

text \<open>
  The store keeps a string as UTF-8 (BSON). Encoding replaces every surrogate code unit
  that is not part of a pair, a high surrogate followed by a low one, by U+FFFD, so what
  the store holds of a string is \<open>toWellFormed\<close> of it.
\<close>

definition isHighSurrogate :: "nat \<Rightarrow> bool" where
  "isHighSurrogate c \<longleftrightarrow> 55296 \<le> c \<and> c \<le> 56319"

definition isLowSurrogate :: "nat \<Rightarrow> bool" where
  "isLowSurrogate c \<longleftrightarrow> 56320 \<le> c \<and> c \<le> 57343"

fun toWellFormed :: "jsstring \<Rightarrow> jsstring" where
  "toWellFormed [] = []"
| "toWellFormed [x] = (if isHighSurrogate x \<or> isLowSurrogate x then [65533] else [x])"
| "toWellFormed (x # y # r) =
     (if isHighSurrogate x \<and> isLowSurrogate y then x # y # toWellFormed r
      else if isHighSurrogate x \<or> isLowSurrogate x then 65533 # toWellFormed (y # r)
      else x # toWellFormed (y # r))"

text \<open>\<open>Model.updateMany(filter, update)\<close>: every matching document is updated;
  \<open>modifiedCount\<close> counts the documents the update changed.\<close>

definition updateMany ::
  "(message \<Rightarrow> bool) \<Rightarrow> (message \<Rightarrow> message) \<Rightarrow> message list \<Rightarrow> message list \<times> nat" where
  "updateMany flt upd ms =
     (map (\<lambda>m. if flt m then upd m else m) ms,
      length (filter (\<lambda>m. flt m \<and> upd m \<noteq> m) ms))"

text \<open>\<open>Model.findOneAndUpdate(filter, update, {new: true})\<close>: the first matching document
  is updated and returned, null when none matches.\<close>

fun findOneAndUpdate ::
  "(message \<Rightarrow> bool) \<Rightarrow> (message \<Rightarrow> message) \<Rightarrow> message list
     \<Rightarrow> message list \<times> message option" where
  "findOneAndUpdate flt upd [] = ([], None)"
| "findOneAndUpdate flt upd (m # ms) =
     (if flt m then (upd m # ms, Some (upd m))
      else (m # fst (findOneAndUpdate flt upd ms), snd (findOneAndUpdate flt upd ms)))"

definition findByIdAndUpdate ::
  "nat \<Rightarrow> (message \<Rightarrow> message) \<Rightarrow> message list \<Rightarrow> message list \<times> message option" where
  "findByIdAndUpdate i upd ms = findOneAndUpdate (\<lambda>m. mid m = i) upd ms"

definition findById :: "nat \<Rightarrow> message list \<Rightarrow> message option" where
  "findById i ms = find (\<lambda>m. mid m = i) ms"

text \<open>\<open>Array.from(io.sockets.sockets.values()).find(s => s.userId === u)\<close>.\<close>

definition findSocket :: "user_id \<Rightarrow> socket list \<Rightarrow> socket option" where
  "findSocket u ss = find (\<lambda>s. userId s = u) ss"

text \<open>The two updates the handlers write.\<close>

definition setDelivered :: "time \<Rightarrow> message \<Rightarrow> message" where
  "setDelivered t m = m\<lparr>status := Delivered, deliveredAt := Some t\<rparr>"

definition setRead :: "time \<Rightarrow> message \<Rightarrow> message" where
  "setRead t m = m\<lparr>status := Read, readAt := Some t\<rparr>"

text \<open>\<open>new Message({...})\<close> with the schema defaults, and \<open>message.save()\<close>: the
  \<open>required\<close> validator of a String path rejects the empty string, and the document
  is written with its content encoded (\<open>asStored\<close>). The message object in the handler
  keeps the string it was built with.\<close>

definition newMessage ::
  "nat \<Rightarrow> nat \<Rightarrow> user_id \<Rightarrow> user_id \<Rightarrow> jsstring \<Rightarrow> time \<Rightarrow> message" where
  "newMessage i c snd' rcv txt t =
     \<lparr>mid = i, chatId = c, sender = snd', receiver = rcv, content = txt, timestamp = t,
      status = Sent, deliveredAt = None, readAt = None\<rparr>"

definition asStored :: "message \<Rightarrow> message" where
  "asStored m = m\<lparr>content := toWellFormed (content m)\<rparr>"

definition save :: "message \<Rightarrow> server \<Rightarrow> server option" where
  "save m s =
     (if content m = [] then None
      else Some (s\<lparr>messages := messages s @ [asStored m], nextId := Suc (nextId s)\<rparr>))"

section \<open>Chat.findOrCreateChat\<close>

text \<open>The query \<open>{participants: {$all: [user1Id, user2Id], $size: 2}}\<close>.\<close>

definition chatMatches :: "user_id \<Rightarrow> user_id \<Rightarrow> chat \<Rightarrow> bool" where
  "chatMatches u1 u2 c \<longleftrightarrow>
     u1 \<in> set (participants c) \<and> u2 \<in> set (participants c) \<and> length (participants c) = 2"

text \<open>The function awaits twice: the lookup, then the save of the chat it creates. The two
  segments are \<open>findChat\<close> and \<open>createChat\<close>.\<close>

definition findChat :: "user_id \<Rightarrow> user_id \<Rightarrow> server \<Rightarrow> chat option" where
  "findChat u1 u2 s = find (chatMatches u1 u2) (chats s)"

definition createChat :: "user_id \<Rightarrow> user_id \<Rightarrow> server \<Rightarrow> chat \<times> server" where
  "createChat u1 u2 s =
     (\<lparr>cid = nextId s, participants = [u1, u2]\<rparr>,
      s\<lparr>chats := chats s @ [\<lparr>cid = nextId s, participants = [u1, u2]\<rparr>],
        nextId := Suc (nextId s)\<rparr>)"

definition findOrCreateChat :: "user_id \<Rightarrow> user_id \<Rightarrow> server \<Rightarrow> chat \<times> server" where
  "findOrCreateChat u1 u2 s =
     (case findChat u1 u2 s of Some c \<Rightarrow> (c, s) | None \<Rightarrow> createChat u1 u2 s)"

text \<open>Two calls whose lookups both run before either save: the interleaving the two awaits
  allow when two requests for the pair are in flight.\<close>

definition findOrCreateChat_interleaved ::
  "user_id \<Rightarrow> user_id \<Rightarrow> user_id \<Rightarrow> user_id \<Rightarrow> server \<Rightarrow> (chat \<times> chat) \<times> server" where
  "findOrCreateChat_interleaved a b c d s =
     (let r1 = findChat a b s;
          r2 = findChat c d s;
          (c1, s1) = (case r1 of Some x \<Rightarrow> (x, s) | None \<Rightarrow> createChat a b s);
          (c2, s2) = (case r2 of Some x \<Rightarrow> (x, s1) | None \<Rightarrow> createChat c d s1)
      in ((c1, c2), s2))"

text \<open>The number of chat records a lookup for the pair can return.\<close>

definition chatsFor :: "user_id \<Rightarrow> user_id \<Rightarrow> server \<Rightarrow> nat" where
  "chatsFor u1 u2 s = length (filter (chatMatches u1 u2) (chats s))"

section \<open>Submitting a message\<close>

text \<open>
  The \<open>send_message\<close> socket handler of \<open>server.js\<close> (the server with real-time delivery).
  \<open>receiverId\<close> and \<open>content\<close> come from the client: \<open>None\<close> is an absent (undefined or
  null) field, \<open>Some []\<close> the empty string, both falsy. \<open>up\<close> says whether the store
  answers during this run: when it does not, the first query throws and the handler's
  \<open>catch\<close> runs.

  After the save the handler awaits twice more, for \<open>populate\<close> and for the update that
  marks the message delivered, and other handlers run while it waits. It is written in
  two segments: \<open>send_message_push\<close> runs up to the push to the receiver, and
  \<open>send_message_finish\<close> applies the update (\<open>markDelivered\<close>) and emits what follows it;
  \<open>send_message\<close> is the handler run without interruption. Clock readings: 0 is the
  schema default of \<open>timestamp\<close>, 1 the \<open>deliveredAt\<close> of the update, 2 the
  \<open>deliveredAt\<close> of the notification.
\<close>

datatype progress = Aborted | Saved message chat | Pushed message chat

definition sentAck :: "socket \<Rightarrow> message \<Rightarrow> chat \<Rightarrow> emission" where
  "sentAck sock message chat' =
     (sid sock, MessageSent (mid message) (cid chat') (content message) (timestamp message))"

fun send_message_push ::
  "clock \<Rightarrow> bool \<Rightarrow> socket \<Rightarrow> user_id option \<Rightarrow> jsstring option \<Rightarrow> server
     \<Rightarrow> server \<times> emission list \<times> progress" where
  "send_message_push clk up sock (Some r) (Some (c # cs)) s =
     (if \<not> up then (s, [(sid sock, MessageSentFailed)], Aborted)
      else
        let (chat', s1) = findOrCreateChat (userId sock) r s;
            message = newMessage (nextId s1) (cid chat') (userId sock) r (trim (c # cs)) (clk 0)
        in case save message s1 of
             None \<Rightarrow> (s1, [(sid sock, MessageSentFailed)], Aborted)
           | Some s2 \<Rightarrow>
               let out = [sentAck sock message chat',
                          (sid sock, ChatUpdated (cid chat') (userId sock) (fullName sock)
                             (content message) (timestamp message))]
               in case findSocket r (sockets s2) of
                    None \<Rightarrow> (s2, out, Saved message chat')
                  | Some receiverSocket \<Rightarrow>
                      (s2,
                       out @ [(sid receiverSocket,
                               NewMessage (mid message) (content message) (userId sock)
                                 (fullName sock) (timestamp message) (cid chat') r Sent)],
                       Pushed message chat'))"
| "send_message_push clk up sock receiverId content' s = (s, [], Aborted)"

text \<open>\<open>Message.findByIdAndUpdate(message._id, {status: 'delivered', deliveredAt: new Date()})\<close>:
  the update carries no condition on the current status.\<close>

definition markDelivered :: "nat \<Rightarrow> time \<Rightarrow> server \<Rightarrow> server" where
  "markDelivered i t s = s\<lparr>messages := fst (findByIdAndUpdate i (setDelivered t) (messages s))\<rparr>"

definition send_message_finish ::
  "clock \<Rightarrow> socket \<Rightarrow> server \<times> emission list \<times> progress \<Rightarrow> server \<times> emission list" where
  "send_message_finish clk sock r =
     (case r of
        (s, out, Aborted) \<Rightarrow> (s, out)
      | (s, out, Saved message chat') \<Rightarrow> (s, out @ [sentAck sock message chat'])
      | (s, out, Pushed message chat') \<Rightarrow>
          (markDelivered (mid message) (clk 1) s,
           out @ [(sid sock, MessageDelivered (mid message) (clk 2)),
                  sentAck sock message chat']))"

definition send_message ::
  "clock \<Rightarrow> bool \<Rightarrow> socket \<Rightarrow> user_id option \<Rightarrow> jsstring option \<Rightarrow> server
     \<Rightarrow> server \<times> emission list" where
  "send_message clk up sock receiverId content' s =
     send_message_finish clk sock (send_message_push clk up sock receiverId content' s)"

text \<open>\<open>POST /api/messages/send\<close>, the HTTP fallback: it stores the message and pushes
  nothing.\<close>

fun post_messages_send ::
  "clock \<Rightarrow> bool \<Rightarrow> auth \<Rightarrow> user_id option \<Rightarrow> jsstring option \<Rightarrow> server
     \<Rightarrow> server \<times> http_response" where
  "post_messages_send clk up NoToken receiverId content' s = (s, Unauthorized)"
| "post_messages_send clk up InvalidToken receiverId content' s = (s, ServerError)"
| "post_messages_send clk up (ValidToken senderId) (Some r) (Some (c # cs)) s =
     (if \<not> up then (s, ServerError)
      else
        let (chat', s1) = findOrCreateChat senderId r s;
            message = newMessage (nextId s1) (cid chat') senderId r (trim (c # cs)) (clk 0)
        in case save message s1 of
             None \<Rightarrow> (s1, ServerError)
           | Some s2 \<Rightarrow> (s2, SendOk (mid message) (cid chat')))"
| "post_messages_send clk up (ValidToken senderId) receiverId content' s = (s, BadRequest)"

text \<open>
  The \<open>send_message\<close> handler of the server variant kept in \<open>routes/auth.js\<close>: it stamps
  \<open>deliveredAt\<close> when it builds the message ("Mark as delivered when saved") and leaves
  \<open>status\<close> at its default; it never updates the stored message afterwards. Its payloads
  differ: the acknowledgment carries \<open>status: 'sent'\<close>, the push \<open>status: 'delivered'\<close>,
  and \<open>message_delivered\<close> says whether a receiver socket was found.
\<close>

datatype payload_variant =
    MessageSentV nat nat jsstring status
  | MessageSentFailedV
  | NewMessageV nat jsstring user_id jsstring time nat user_id status
  | MessageDeliveredV nat nat jsstring bool status

fun send_message_variant ::
  "clock \<Rightarrow> bool \<Rightarrow> socket \<Rightarrow> user_id option \<Rightarrow> jsstring option \<Rightarrow> server
     \<Rightarrow> server \<times> (nat \<times> payload_variant) list" where
  "send_message_variant clk up sock (Some r) (Some (c # cs)) s =
     (if \<not> up then (s, [(sid sock, MessageSentFailedV)])
      else
        let (chat', s1) = findOrCreateChat (userId sock) r s;
            message = (newMessage (nextId s1) (cid chat') (userId sock) r (trim (c # cs)) (clk 1))
                        \<lparr>deliveredAt := Some (clk 0)\<rparr>
        in case save message s1 of
             None \<Rightarrow> (s1, [(sid sock, MessageSentFailedV)])
           | Some s2 \<Rightarrow>
               (case findSocket r (sockets s2) of
                  None \<Rightarrow>
                    (s2, [(sid sock, MessageSentV (mid message) (cid chat') (content message) Sent),
                          (sid sock, MessageDeliveredV (mid message) (cid chat')
                             (content message) False Sent)])
                | Some receiverSocket \<Rightarrow>
                    (s2, [(sid sock, MessageSentV (mid message) (cid chat') (content message) Sent),
                          (sid receiverSocket,
                           NewMessageV (mid message) (content message) (userId sock)
                             (fullName sock) (timestamp message) (cid chat') r Delivered),
                          (sid sock, MessageDeliveredV (mid message) (cid chat')
                             (content message) True Delivered)])))"
| "send_message_variant clk up sock receiverId content' s = (s, [])"

section \<open>Delivery acknowledgment\<close>

text \<open>\<open>POST /api/messages/:id/delivered\<close>: the update is conditional on \<open>status: 'sent'\<close>.\<close>

fun post_messages_delivered ::
  "clock \<Rightarrow> bool \<Rightarrow> auth \<Rightarrow> nat \<Rightarrow> server \<Rightarrow> server \<times> emission list \<times> http_response" where
  "post_messages_delivered clk up NoToken messageId s = (s, [], Unauthorized)"
| "post_messages_delivered clk up InvalidToken messageId s = (s, [], ServerError)"
| "post_messages_delivered clk up (ValidToken u) messageId s =
     (if \<not> up then (s, [], ServerError)
      else
        case findOneAndUpdate (\<lambda>m. mid m = messageId \<and> status m = Sent)
               (setDelivered (clk 0)) (messages s) of
          (ms, None) \<Rightarrow>
            (case findById messageId (messages s) of
               None \<Rightarrow> (s, [], NotFound)
             | Some existingMessage \<Rightarrow>
                 (s, [], AlreadyUpdated messageId (status existingMessage)))
        | (ms, Some updatedMessage) \<Rightarrow>
            (s\<lparr>messages := ms\<rparr>,
             (case findSocket (sender updatedMessage) (sockets s) of
                None \<Rightarrow> []
              | Some senderSocket \<Rightarrow> [(sid senderSocket, MessageDelivered messageId (clk 0))]),
             DeliveredOk messageId))"

section \<open>Read receipts\<close>

text \<open>The common part of the read filters: \<open>{chatId, receiver, status}\<close>; and a \<open>$gte\<close>
  comparison on a Date field that may be null.\<close>

definition toReader :: "nat \<Rightarrow> user_id \<Rightarrow> status \<Rightarrow> message \<Rightarrow> bool" where
  "toReader c u st m \<longleftrightarrow> chatId m = c \<and> receiver m = u \<and> status m = st"

definition notBefore :: "time \<Rightarrow> time option \<Rightarrow> bool" where
  "notBefore t d = (case d of None \<Rightarrow> False | Some x \<Rightarrow> t \<le> x)"

text \<open>The loop over the sender ids: one \<open>message_read\<close> per sender with a socket, its
  \<open>messageCount\<close> the number of that sender's messages in \<open>updatedMessages\<close>. \<open>k\<close> is the
  index of the next clock reading.\<close>

fun notifySenders ::
  "clock \<Rightarrow> nat \<Rightarrow> socket \<Rightarrow> nat \<Rightarrow> message list \<Rightarrow> socket list \<Rightarrow> user_id list
     \<Rightarrow> emission list" where
  "notifySenders clk k sock c updatedMessages ss [] = []"
| "notifySenders clk k sock c updatedMessages ss (senderId # rest) =
     (case findSocket senderId ss of
        None \<Rightarrow> notifySenders clk k sock c updatedMessages ss rest
      | Some senderSocket \<Rightarrow>
          (sid senderSocket,
           MessageRead c (userId sock) (Some (fullName sock)) (clk k)
             (length (filter (\<lambda>m. sender m = senderId) updatedMessages)))
          # notifySenders clk (Suc k) sock c updatedMessages ss rest)"

text \<open>\<open>[...new Set(xs)]\<close>: the distinct elements in the order of their first occurrence.\<close>

definition distinctInOrder :: "'a list \<Rightarrow> 'a list" where
  "distinctInOrder xs = rev (remdups (rev xs))"

text \<open>
  The \<open>message_read\<close> socket handler of \<open>server.js\<close>. Clock readings: 0 the \<open>readAt\<close> of the
  first update, 1 the grace-window bound of the query for recent sent messages; when
  that query finds any, 2 the grace-window bound of the bump, 3 its \<open>deliveredAt\<close>, 4 the
  "just delivered" bound, 5 the \<open>readAt\<close>. The notifications take the readings that
  follow: from 6 when the bump ran, from 2 when it did not. \<open>updatedMessages\<close> is the
  query for every message of the chat to the reader at status read, newest first, at
  most 100.
\<close>

definition recentSentMessages :: "clock \<Rightarrow> nat \<Rightarrow> user_id \<Rightarrow> message list \<Rightarrow> message list" where
  "recentSentMessages clk c u ms =
     filter (\<lambda>m. toReader c u Sent m \<and> clk 1 - 60000 \<le> timestamp m)
       (fst (updateMany (toReader c u Delivered) (setRead (clk 0)) ms))"

definition message_read_updates :: "clock \<Rightarrow> nat \<Rightarrow> user_id \<Rightarrow> message list \<Rightarrow> message list" where
  "message_read_updates clk c u ms =
     (let ms1 = fst (updateMany (toReader c u Delivered) (setRead (clk 0)) ms)
      in if length (recentSentMessages clk c u ms) > 0 then
           let ms2 = fst (updateMany (\<lambda>m. toReader c u Sent m \<and> clk 2 - 60000 \<le> timestamp m)
                            (setDelivered (clk 3)) ms1)
           in fst (updateMany
                     (\<lambda>m. toReader c u Delivered m \<and> notBefore (clk 4 - 5000) (deliveredAt m))
                     (setRead (clk 5)) ms2)
         else ms1)"

definition message_read :: "clock \<Rightarrow> bool \<Rightarrow> socket \<Rightarrow> nat \<Rightarrow> server \<Rightarrow> server \<times> emission list" where
  "message_read clk up sock c s =
     (if \<not> up then (s, [])
      else
        let ms = message_read_updates clk c (userId sock) (messages s);
            k = (if length (recentSentMessages clk c (userId sock) (messages s)) > 0
                 then 6 else 2);
            updatedMessages =
              take 100 (sort_key (\<lambda>m. - timestamp m) (filter (toReader c (userId sock) Read) ms));
            senderIds = distinctInOrder (map sender updatedMessages)
        in (s\<lparr>messages := ms\<rparr>,
            notifySenders clk k sock c updatedMessages (sockets s) senderIds))"

text \<open>
  \<open>POST /api/messages/read\<close>. Clock readings: 0 the grace-window bound, 1 the
  \<open>deliveredAt\<close> of the bump, 2 the \<open>readAt\<close>, 3 the notification. The notification goes to
  the socket of the first participant of the chat other than the reader
  (\<open>otherParticipantSocket\<close>: \<open>Chat.findById\<close>, \<open>participants.find\<close>, the socket scan),
  whatever the counts are.
\<close>

definition otherParticipantSocket :: "nat \<Rightarrow> user_id \<Rightarrow> server \<Rightarrow> socket option" where
  "otherParticipantSocket c u s =
     (case find (\<lambda>x. cid x = c) (chats s) of
        None \<Rightarrow> None
      | Some chat' \<Rightarrow>
          (case find (\<lambda>p. p \<noteq> u) (participants chat') of
             None \<Rightarrow> None
           | Some senderId \<Rightarrow> findSocket senderId (sockets s)))"

fun post_messages_read ::
  "clock \<Rightarrow> bool \<Rightarrow> auth \<Rightarrow> nat \<Rightarrow> server \<Rightarrow> server \<times> emission list \<times> http_response" where
  "post_messages_read clk up NoToken c s = (s, [], Unauthorized)"
| "post_messages_read clk up InvalidToken c s = (s, [], ServerError)"
| "post_messages_read clk up (ValidToken u) c s =
     (if \<not> up then (s, [], ServerError)
      else
        let recentSentResult =
              updateMany (\<lambda>m. toReader c u Sent m \<and> clk 0 - 60000 \<le> timestamp m)
                (setDelivered (clk 1)) (messages s);
            readResult = updateMany (toReader c u Delivered) (setRead (clk 2)) (fst recentSentResult);
            total = snd readResult + snd recentSentResult
        in (s\<lparr>messages := fst readResult\<rparr>,
            (case otherParticipantSocket c u s of
               None \<Rightarrow> []
             | Some senderSocket \<Rightarrow> [(sid senderSocket, MessageRead c u None (clk 3) total)]),
            ReadOk (snd recentSentResult) (snd readResult) total))"

section \<open>Presence\<close>

text \<open>
  A connection puts the socket into \<open>io.sockets.sockets\<close> and (re)declares the read route;
  one second later a timer calls \<open>_updateUserOnlineStatus\<close>. On a disconnect socket.io
  has removed the socket before the handler calls \<open>_updateUserOfflineStatus\<close>. Both
  broadcast with \<open>io.emit\<close>. \<open>GET /api/users/:userId/status\<close> answers from
  \<open>global.onlineUsers\<close>.
\<close>

definition connection :: "socket \<Rightarrow> server \<Rightarrow> server" where
  "connection sock s = s\<lparr>sockets := sockets s @ [sock], readRoute := True\<rparr>"

definition updateUserOnlineStatus :: "time \<Rightarrow> user_id \<Rightarrow> server \<Rightarrow> server \<times> emission list" where
  "updateUserOnlineStatus t u s =
     (s\<lparr>onlineUsers := insert u (onlineUsers s)\<rparr>,
      map (\<lambda>x. (sid x, UserOnline u t)) (sockets s))"

definition updateUserOfflineStatus :: "time \<Rightarrow> user_id \<Rightarrow> server \<Rightarrow> server \<times> emission list" where
  "updateUserOfflineStatus t u s =
     (s\<lparr>onlineUsers := onlineUsers s - {u}\<rparr>,
      map (\<lambda>x. (sid x, UserOffline u t)) (sockets s))"

definition disconnect :: "time \<Rightarrow> socket \<Rightarrow> server \<Rightarrow> server \<times> emission list" where
  "disconnect t sock s =
     updateUserOfflineStatus t (userId sock)
       (s\<lparr>sockets := filter (\<lambda>x. sid x \<noteq> sid sock) (sockets s)\<rparr>)"

definition get_user_status :: "user_id \<Rightarrow> server \<Rightarrow> bool" where
  "get_user_status u s \<longleftrightarrow> u \<in> onlineUsers s"

section \<open>The server as a machine\<close>

text \<open>
  One event is one handler run to completion. A socket event names its socket by id and
  is dropped when no such socket is connected; the read route answers only once a
  connection has declared it.
\<close>

datatype event =
    OnConnection socket
  | OnTimer time user_id
  | OnDisconnect time nat
  | OnSendMessage clock bool nat "user_id option" "jsstring option"
  | OnMessageRead clock bool nat nat
  | PostMessagesSend clock bool auth "user_id option" "jsstring option"
  | PostMessagesDelivered clock bool auth nat
  | PostMessagesRead clock bool auth nat

definition socketById :: "nat \<Rightarrow> server \<Rightarrow> socket option" where
  "socketById i s = find (\<lambda>x. sid x = i) (sockets s)"

fun step :: "event \<Rightarrow> server \<Rightarrow> server" where
  "step (OnConnection sock) s = connection sock s"
| "step (OnTimer t u) s = fst (updateUserOnlineStatus t u s)"
| "step (OnDisconnect t i) s =
     (case socketById i s of None \<Rightarrow> s | Some sock \<Rightarrow> fst (disconnect t sock s))"
| "step (OnSendMessage clk up i receiverId content') s =
     (case socketById i s of
        None \<Rightarrow> s
      | Some sock \<Rightarrow> fst (send_message clk up sock receiverId content' s))"
| "step (OnMessageRead clk up i c) s =
     (case socketById i s of None \<Rightarrow> s | Some sock \<Rightarrow> fst (message_read clk up sock c s))"
| "step (PostMessagesSend clk up a receiverId content') s =
     fst (post_messages_send clk up a receiverId content' s)"
| "step (PostMessagesDelivered clk up a messageId) s =
     fst (post_messages_delivered clk up a messageId s)"
| "step (PostMessagesRead clk up a c) s =
     (if readRoute s then fst (post_messages_read clk up a c s) else s)"

fun run :: "event list \<Rightarrow> server \<Rightarrow> server" where
  "run [] s = s"
| "run (e # es) s = run es (step e s)"

section \<open>Observers used to state the properties\<close>

text \<open>The text a payload carries: \<open>content\<close> of \<open>message_sent\<close> and \<open>new_message\<close>,
  \<open>lastMessage\<close> of \<open>chat_updated\<close>.\<close>

fun payloadContent :: "payload \<Rightarrow> jsstring option" where
  "payloadContent (MessageSent i c txt t) = Some txt"
| "payloadContent (ChatUpdated c u n txt t) = Some txt"
| "payloadContent (NewMessage i txt u n t c r st) = Some txt"
| "payloadContent p = None"

text \<open>Whether a payload is the push of a new message to its receiver.\<close>

fun isPush :: "payload \<Rightarrow> bool" where
  "isPush (NewMessage i txt u n t c r st) = True"
| "isPush p = False"

text \<open>The two timestamp invariants of the data model, for one message.\<close>

definition stamps_ok :: "message \<Rightarrow> bool" where
  "stamps_ok m \<longleftrightarrow>
     (deliveredAt m \<noteq> None) = (status m = Delivered \<or> status m = Read)
     \<and> (readAt m \<noteq> None) = (status m = Read)"

text \<open>Every stored message id is below the next fresh id.\<close>

definition ids_below :: "server \<Rightarrow> bool" where
  "ids_below s \<longleftrightarrow> list_all (\<lambda>m. mid m < nextId s) (messages s)"

text \<open>
  Whether an event is a read signal of the receiver of \<open>m\<close> for its chat, or a delivery
  acknowledgment for \<open>m\<close>; and a run of events none of which is one.
\<close>

fun signals :: "event \<Rightarrow> message \<Rightarrow> server \<Rightarrow> bool" where
  "signals (OnMessageRead clk up i c) m s =
     (c = chatId m \<and>
      (case socketById i s of None \<Rightarrow> False | Some sock \<Rightarrow> userId sock = receiver m))"
| "signals (PostMessagesRead clk up a c) m s = (c = chatId m \<and> a = ValidToken (receiver m))"
| "signals (PostMessagesDelivered clk up a i) m s = (i = mid m)"
| "signals e m s = False"

fun quiet :: "message \<Rightarrow> event list \<Rightarrow> server \<Rightarrow> bool" where
  "quiet m [] s = True"
| "quiet m (e # es) s = (\<not> signals e m s \<and> quiet m es (step e s))"

section \<open>Concrete scenarios\<close>

text \<open>Two users and their sockets, a clock that advances one millisecond per reading
  from a start time, and a clock whose readings 4 onwards come six seconds late.\<close>

definition alice :: socket where
  "alice = \<lparr>sid = 10, userId = 1, fullName = [65]\<rparr>"

definition bob :: socket where
  "bob = \<lparr>sid = 20, userId = 2, fullName = [66]\<rparr>"

definition ticking :: "time \<Rightarrow> clock" where
  "ticking t0 k = t0 + int k"

definition stalling :: "time \<Rightarrow> clock" where
  "stalling t0 k = (if k < 4 then t0 + int k else t0 + 6000 + int k)"

definition hi :: jsstring where
  "hi = [104, 105]"

text \<open>
  A race on one message. Alice's \<open>send_message\<close> to the connected Bob has stored and
  pushed the message, and its update that marks the message delivered has not yet
  reached the store (\<open>race_pushed\<close>); the two updates of Bob's
  \<open>POST /api/messages/read\<close> for the chat are applied (\<open>race_read\<close>); then the update of
  Alice's handler is (\<open>race_finished\<close>).
\<close>

definition race_pushed :: "server \<times> emission list \<times> progress" where
  "race_pushed =
     send_message_push (ticking 1000) True alice (Some 2) (Some hi)
       (run [OnConnection alice, OnConnection bob] init_server)"

definition race_read :: "server \<times> emission list \<times> http_response" where
  "race_read = post_messages_read (ticking 2000) True (ValidToken 2) 0 (fst race_pushed)"

definition race_finished :: "server \<times> emission list" where
  "race_finished =
     send_message_finish (ticking 1000) alice
       (fst race_read, fst (snd race_pushed), snd (snd race_pushed))"

text \<open>
  Two read signals. With both connected, Alice sends, Bob reads the chat, Alice sends
  again (\<open>second_unread\<close>): one message read by the earlier call, one delivered. And a
  message Alice sends over HTTP while Bob has no socket (\<open>offline_unread\<close>).
\<close>

definition second_unread :: server where
  "second_unread =
     run [OnConnection alice, OnConnection bob,
          OnSendMessage (ticking 1000) True 10 (Some 2) (Some hi),
          OnMessageRead (ticking 2000) True 20 0,
          OnSendMessage (ticking 3000) True 10 (Some 2) (Some hi)] init_server"

definition offline_unread :: server where
  "offline_unread =
     run [OnConnection alice,
          PostMessagesSend (ticking 1000) True (ValidToken 1) (Some 2) (Some hi)] init_server"

text \<open>The invariant of the machine: every stored message is well stamped and its id is
  below the next fresh id.\<close>

definition sound :: "server \<Rightarrow> bool" where
  "sound s \<longleftrightarrow> list_all (\<lambda>m. stamps_ok m \<and> mid m < nextId s) (messages s)"

text \<open>The order of the statuses, and what it means for a stored message to have been left
  alone or moved forward.\<close>

fun rank :: "status \<Rightarrow> nat" where
  "rank Sent = 0"
| "rank Delivered = 1"
| "rank Read = 2"

definition forward :: "message \<Rightarrow> message \<Rightarrow> bool" where
  "forward m x \<longleftrightarrow> x = m \<or> rank (status m) < rank (status x)"

section \<open>Properties\<close>

subsection \<open>Trimming\<close>

lemma trim_decompose:
  "\<exists>pre suf. c = pre @ trim c @ suf \<and> list_all isWhiteSpace pre \<and> list_all isWhiteSpace suf"
proof -
  let ?d = "dropWhile isWhiteSpace c"
  have 1: "c = takeWhile isWhiteSpace c @ ?d" by simp
  have 2: "rev ?d = takeWhile isWhiteSpace (rev ?d) @ dropWhile isWhiteSpace (rev ?d)" by simp
  have 3: "?d = trim c @ rev (takeWhile isWhiteSpace (rev ?d))"
    unfolding trim_def by (metis 2 rev_append rev_rev_ident)
  have "c = takeWhile isWhiteSpace c @ trim c @ rev (takeWhile isWhiteSpace (rev ?d))"
    using 1 3 by metis
  moreover have "list_all isWhiteSpace (takeWhile isWhiteSpace c)"
    by (simp add: list_all_iff) (meson set_takeWhileD)
  moreover have "list_all isWhiteSpace (rev (takeWhile isWhiteSpace (rev ?d)))"
    by (simp add: list_all_iff) (meson set_takeWhileD)
  ultimately show ?thesis by blast
qed

lemma trim_ends:
  "trim c \<noteq> [] \<Longrightarrow> \<not> isWhiteSpace (hd (trim c)) \<and> \<not> isWhiteSpace (last (trim c))"
proof -
  assume ne: "trim c \<noteq> []"
  let ?d = "dropWhile isWhiteSpace c"
  let ?e = "dropWhile isWhiteSpace (rev ?d)"
  have e: "?e \<noteq> []" using ne by (simp add: trim_def)
  then have "\<not> isWhiteSpace (hd ?e)" by (rule hd_dropWhile)
  then have l: "\<not> isWhiteSpace (last (trim c))" using e by (simp add: trim_def last_rev)
  have d: "?d \<noteq> []"
  proof
    assume "?d = []"
    then have "?e = []" by (metis dropWhile.simps(1) rev.simps(1))
    with e show False by blast
  qed
  then have hd: "\<not> isWhiteSpace (hd ?d)" by (rule hd_dropWhile)
  have "?d = trim c @ rev (takeWhile isWhiteSpace (rev ?d))"
    unfolding trim_def by (metis takeWhile_dropWhile_id rev_append rev_rev_ident)
  then have "hd ?d = hd (trim c)" using ne by (metis hd_append2)
  with hd l show ?thesis by simp
qed

lemma trim_Nil: "trim [] = []"
  by (simp add: trim_def)

subsection \<open>What the store holds of a string\<close>

lemma isWhiteSpace_not_surrogate:
  "isWhiteSpace x \<Longrightarrow> \<not> isHighSurrogate x \<and> \<not> isLowSurrogate x"
  by (auto simp: isWhiteSpace_def isHighSurrogate_def isLowSurrogate_def)

lemma toWellFormed_white_prefix:
  "list_all isWhiteSpace pre \<Longrightarrow> toWellFormed (pre @ r) = pre @ toWellFormed r"
proof (induction pre)
  case Nil
  then show ?case by simp
next
  case (Cons x pre)
  then show ?case
    using isWhiteSpace_not_surrogate [of x] by (cases "pre @ r") auto
qed

lemma toWellFormed_white_suffix:
  "list_all isWhiteSpace suf \<Longrightarrow> toWellFormed (t @ suf) = toWellFormed t @ suf"
proof (induction t rule: toWellFormed.induct)
  case 1
  then show ?case using toWellFormed_white_prefix [of suf "[]"] by simp
next
  case (2 x)
  then show ?case
  proof (cases suf)
    case Nil
    then show ?thesis by simp
  next
    case (Cons y r)
    then have "toWellFormed (y # r) = y # r"
      using 2 toWellFormed_white_prefix [of suf "[]"] by simp
    then show ?thesis
      using Cons 2 isWhiteSpace_not_surrogate [of y] by simp
  qed
next
  case (3 x y r)
  then show ?case by simp
qed

text \<open>Trimming a string that holds no lone surrogate gives one that holds none.\<close>

lemma toWellFormed_trim: "toWellFormed c = c \<Longrightarrow> toWellFormed (trim c) = trim c"
proof -
  assume wf: "toWellFormed c = c"
  obtain pre suf where d: "c = pre @ trim c @ suf"
    and pre: "list_all isWhiteSpace pre" and suf: "list_all isWhiteSpace suf"
    using trim_decompose [of c] by blast
  have "toWellFormed (pre @ trim c @ suf) = pre @ toWellFormed (trim c) @ suf"
    using pre suf by (simp add: toWellFormed_white_prefix toWellFormed_white_suffix)
  then have "pre @ toWellFormed (trim c) @ suf = pre @ trim c @ suf"
    using wf d by simp
  then show ?thesis by simp
qed

lemma newMessage_fields:
  "mid (newMessage i c a b body t) = i" "chatId (newMessage i c a b body t) = c"
  "sender (newMessage i c a b body t) = a" "receiver (newMessage i c a b body t) = b"
  "content (newMessage i c a b body t) = body" "timestamp (newMessage i c a b body t) = t"
  "status (newMessage i c a b body t) = Sent" "deliveredAt (newMessage i c a b body t) = None"
  "readAt (newMessage i c a b body t) = None"
  by (simp_all add: newMessage_def)

lemma asStored_newMessage:
  "asStored (newMessage i c a b body t) = newMessage i c a b (toWellFormed body) t"
  by (simp add: asStored_def newMessage_def)

subsection \<open>The store primitives\<close>

lemma findOneAndUpdate_length: "length (fst (findOneAndUpdate flt upd ms)) = length ms"
  by (induction ms) auto

lemma findOneAndUpdate_content:
  "(\<And>m. content (upd m) = content m) \<Longrightarrow>
   map content (fst (findOneAndUpdate flt upd ms)) = map content ms"
  by (induction ms) auto

lemma markDelivered_contents:
  "map content (messages (markDelivered i t s)) = map content (messages s)"
  by (simp add: markDelivered_def findByIdAndUpdate_def findOneAndUpdate_content setDelivered_def)

lemma content_last: "ms \<noteq> [] \<Longrightarrow> content (last ms) = last (map content ms)"
  by (simp add: last_map)

lemma findOrCreateChat_keeps:
  "findOrCreateChat a b s = (ch, s0) \<Longrightarrow>
   sockets s0 = sockets s \<and> messages s0 = messages s \<and> onlineUsers s0 = onlineUsers s
   \<and> readRoute s0 = readRoute s \<and> nextId s \<le> nextId s0"
  by (auto simp: findOrCreateChat_def createChat_def split: option.splits)

subsection \<open>Submitting a message\<close>

lemma send_message_push_stores:
  assumes "up" and "trim c \<noteq> []"
  shows "\<exists>m chat' s1 out pr.
           send_message_push clk up sock (Some r) (Some c) s = (s1, out, pr)
           \<and> (pr = Saved m chat' \<or> pr = Pushed m chat')
           \<and> (pr = Saved m chat' \<longleftrightarrow> findSocket r (sockets s) = None)
           \<and> messages s1 = messages s @ [asStored m] \<and> content m = trim c
           \<and> timestamp m = clk 0
           \<and> hd out = sentAck sock m chat' \<and> out \<noteq> []
           \<and> list_all (\<lambda>e. payloadContent (snd e) = None
                             \<or> payloadContent (snd e) = Some (trim c)) out
           \<and> (\<forall>rs. findSocket r (sockets s) = Some rs \<longrightarrow>
                 (sid rs, NewMessage (mid m) (trim c) (userId sock) (fullName sock) (clk 0)
                            (cid chat') r Sent) \<in> set out)"
proof -
  obtain x xs where c: "c = x # xs" using assms(2) by (cases c) (auto simp: trim_Nil)
  obtain ch s0 where f: "findOrCreateChat (userId sock) r s = (ch, s0)" by force
  have ss: "sockets s0 = sockets s" and ms: "messages s0 = messages s"
    using findOrCreateChat_keeps [OF f] by auto
  show ?thesis
    using assms ss ms
    by (cases "findSocket r (sockets s)")
       (auto simp: c f save_def newMessage_fields sentAck_def Let_def)
qed

text \<open>
  C10, as the code has it. When the store answers and the trimmed content is not empty,
  both transports store a new message whose content is \<open>trim c\<close> for the submitted \<open>c\<close>
  with every lone surrogate replaced by U+FFFD, which is \<open>trim c\<close> itself when \<open>c\<close> holds
  no lone surrogate. The socket handler's first emission is the acknowledgment with
  content \<open>trim c\<close>, every payload it emits that carries text carries \<open>trim c\<close>, and the
  push to a connected receiver is among them. \<open>trim c\<close> is \<open>c\<close> without a prefix and a
  suffix of white space, and it neither starts nor ends with white space.
\<close>

theorem stored_content_is_trimmed:
  assumes "up" and "trim c \<noteq> []"
  shows "(let (s', out) = send_message clk up sock (Some r) (Some c) s
          in length (messages s') = Suc (length (messages s))
             \<and> content (last (messages s')) = toWellFormed (trim c)
             \<and> (toWellFormed c = c \<longrightarrow> content (last (messages s')) = trim c)
             \<and> (\<exists>i ch. hd out = (sid sock, MessageSent i ch (trim c) (clk 0)))
             \<and> list_all (\<lambda>e. payloadContent (snd e) = None
                               \<or> payloadContent (snd e) = Some (trim c)) out
             \<and> (\<forall>rs. findSocket r (sockets s) = Some rs \<longrightarrow>
                   (\<exists>i ch. (sid rs, NewMessage i (trim c) (userId sock) (fullName sock)
                                     (clk 0) ch r Sent) \<in> set out)))
       \<and> (let (s', resp) = post_messages_send clk up (ValidToken u) (Some r) (Some c) s
          in length (messages s') = Suc (length (messages s))
             \<and> content (last (messages s')) = toWellFormed (trim c)
             \<and> (toWellFormed c = c \<longrightarrow> content (last (messages s')) = trim c)
             \<and> (\<exists>i ch. resp = SendOk i ch))
       \<and> (\<exists>pre suf. c = pre @ trim c @ suf
             \<and> list_all isWhiteSpace pre \<and> list_all isWhiteSpace suf)
       \<and> \<not> isWhiteSpace (hd (trim c)) \<and> \<not> isWhiteSpace (last (trim c))"
proof -
  obtain m chat' s1 out pr where p:
    "send_message_push clk up sock (Some r) (Some c) s = (s1, out, pr)"
    "pr = Saved m chat' \<or> pr = Pushed m chat'"
    "messages s1 = messages s @ [asStored m]" "content m = trim c" "timestamp m = clk 0"
    "hd out = sentAck sock m chat'" "out \<noteq> []"
    "list_all (\<lambda>e. payloadContent (snd e) = None \<or> payloadContent (snd e) = Some (trim c)) out"
    "\<forall>rs. findSocket r (sockets s) = Some rs \<longrightarrow>
       (sid rs, NewMessage (mid m) (trim c) (userId sock) (fullName sock) (clk 0)
                  (cid chat') r Sent) \<in> set out"
    using send_message_push_stores [OF assms, of clk sock r s] by blast
  have wf: "toWellFormed c = c \<longrightarrow> toWellFormed (trim c) = trim c"
    using toWellFormed_trim by blast
  have pushed: "\<forall>rs. findSocket r (sockets s) = Some rs \<longrightarrow>
       (\<exists>i ch. (sid rs, NewMessage i (trim c) (userId sock) (fullName sock) (clk 0) ch r Sent)
                 \<in> set out)"
    using p(9) by blast
  have sock_part: "(let (s', out) = send_message clk up sock (Some r) (Some c) s
          in length (messages s') = Suc (length (messages s))
             \<and> content (last (messages s')) = toWellFormed (trim c)
             \<and> (toWellFormed c = c \<longrightarrow> content (last (messages s')) = trim c)
             \<and> (\<exists>i ch. hd out = (sid sock, MessageSent i ch (trim c) (clk 0)))
             \<and> list_all (\<lambda>e. payloadContent (snd e) = None
                               \<or> payloadContent (snd e) = Some (trim c)) out
             \<and> (\<forall>rs. findSocket r (sockets s) = Some rs \<longrightarrow>
                   (\<exists>i ch. (sid rs, NewMessage i (trim c) (userId sock) (fullName sock)
                                     (clk 0) ch r Sent) \<in> set out)))"
  proof (cases "pr = Saved m chat'")
    case True
    then show ?thesis
      using p(1,3-8) pushed wf
      by (simp add: send_message_def send_message_finish_def sentAck_def asStored_def)
  next
    case False
    then have pr: "pr = Pushed m chat'" using p(2) by simp
    have len: "length (messages (markDelivered (mid m) (clk 1) s1)) = Suc (length (messages s))"
      by (simp add: markDelivered_def findByIdAndUpdate_def findOneAndUpdate_length p(3))
    then have ne: "messages (markDelivered (mid m) (clk 1) s1) \<noteq> []" by auto
    have "content (last (messages (markDelivered (mid m) (clk 1) s1))) = toWellFormed (trim c)"
      using ne by (simp add: content_last markDelivered_contents p(3) p(4) asStored_def)
    then show ?thesis
      using p(1,3-8) pushed pr len wf
      by (simp add: send_message_def send_message_finish_def sentAck_def)
  qed
  obtain x xs where c: "c = x # xs" using assms(2) by (cases c) (auto simp: trim_Nil)
  obtain ch s0 where f: "findOrCreateChat u r s = (ch, s0)" by force
  have ms: "messages s0 = messages s"
    using findOrCreateChat_keeps [OF f] by simp
  have http_part: "(let (s', resp) = post_messages_send clk up (ValidToken u) (Some r) (Some c) s
          in length (messages s') = Suc (length (messages s))
             \<and> content (last (messages s')) = toWellFormed (trim c)
             \<and> (toWellFormed c = c \<longrightarrow> content (last (messages s')) = trim c)
             \<and> (\<exists>i ch. resp = SendOk i ch))"
    using assms ms wf
    by (simp add: c f save_def newMessage_fields asStored_newMessage Let_def)
  show ?thesis
    using sock_part http_part trim_decompose [of c] trim_ends [OF assms(2)] by simp
qed

theorem stored_content_is_trimmed_witness:
  "trim [32, 104, 105, 9] \<noteq> [] \<and> toWellFormed [32, 104, 105, 9] = [32, 104, 105, 9]
   \<and> content (last (messages (fst (send_message (\<lambda>k. 1000 + int k) True
         \<lparr>sid = 10, userId = 1, fullName = [65]\<rparr> (Some 2) (Some [32, 104, 105, 9])
         (connection \<lparr>sid = 20, userId = 2, fullName = [66]\<rparr> init_server))))) = [104, 105]
   \<and> content (last (messages (fst (post_messages_send (\<lambda>k. 1000 + int k) True
         (ValidToken 1) (Some 2) (Some [32, 104, 105, 9])
         (connection \<lparr>sid = 20, userId = 2, fullName = [66]\<rparr> init_server))))) = [104, 105]"
proof -
  have v: "trim [32, 104, 105, 9] = [104, 105]" by (simp add: trim_def isWhiteSpace_def)
  have h: "trim [32, 104, 105, 9] \<noteq> []" by (simp add: v)
  have w: "toWellFormed [32, 104, 105, 9] = [32, 104, 105, 9]"
    by (simp add: isHighSurrogate_def isLowSurrogate_def)
  note t = stored_content_is_trimmed [OF TrueI h, of "\<lambda>k. 1000 + int k"
        "\<lparr>sid = 10, userId = 1, fullName = [65]\<rparr>" 2
        "connection \<lparr>sid = 20, userId = 2, fullName = [66]\<rparr> init_server" 1]
  from t have a: "toWellFormed [32, 104, 105, 9] = [32, 104, 105, 9] \<longrightarrow>
      content (last (messages (fst (send_message (\<lambda>k. 1000 + int k) True
         \<lparr>sid = 10, userId = 1, fullName = [65]\<rparr> (Some 2) (Some [32, 104, 105, 9])
         (connection \<lparr>sid = 20, userId = 2, fullName = [66]\<rparr> init_server))))) = trim [32, 104, 105, 9]"
    unfolding split_beta Let_def by (elim conjE) assumption
  from t have b: "toWellFormed [32, 104, 105, 9] = [32, 104, 105, 9] \<longrightarrow>
      content (last (messages (fst (post_messages_send (\<lambda>k. 1000 + int k) True
         (ValidToken 1) (Some 2) (Some [32, 104, 105, 9])
         (connection \<lparr>sid = 20, userId = 2, fullName = [66]\<rparr> init_server))))) = trim [32, 104, 105, 9]"
    unfolding split_beta Let_def by (elim conjE) assumption
  show ?thesis using h w a b unfolding v by blast
qed

theorem lone_surrogate_counterexample:
  "trim [55357, 104, 105] = [55357, 104, 105]
   \<and> content (last (messages (fst (send_message (ticking 1000) True alice (Some 2)
         (Some [55357, 104, 105]) (run [OnConnection alice, OnConnection bob] init_server)))))
       = [65533, 104, 105]
   \<and> content (last (messages (fst (post_messages_send (ticking 1000) True (ValidToken 1) (Some 2)
         (Some [55357, 104, 105]) (run [OnConnection alice, OnConnection bob] init_server)))))
       = [65533, 104, 105]"
  by (simp add: init_server_def alice_def bob_def ticking_def connection_def findSocket_def
        findByIdAndUpdate_def setDelivered_def newMessage_def save_def asStored_def
        chatMatches_def findChat_def createChat_def findOrCreateChat_def
        trim_def isWhiteSpace_def isHighSurrogate_def isLowSurrogate_def
        sentAck_def markDelivered_def send_message_finish_def send_message_def Let_def)

text \<open>
  C9. An invalid submission (no receiver, no content or the empty string) over the socket
  ends the handler without any emission: the sender gets no response. The HTTP handler
  answers the same submissions with 400.
\<close>

theorem send_message_invalid_is_silent:
  "send_message clk up sock None content' s = (s, [])
   \<and> send_message clk up sock receiverId None s = (s, [])
   \<and> send_message clk up sock receiverId (Some []) s = (s, [])
   \<and> post_messages_send clk up (ValidToken u) None content' s = (s, BadRequest)
   \<and> post_messages_send clk up (ValidToken u) receiverId None s = (s, BadRequest)
   \<and> post_messages_send clk up (ValidToken u) receiverId (Some []) s = (s, BadRequest)"
  by (cases receiverId) (simp_all add: send_message_def send_message_finish_def)

subsection \<open>Presence\<close>

lemma find_Some_mem: "find P xs = Some x \<Longrightarrow> x \<in> set xs \<and> P x"
  by (induction xs) (auto split: if_splits)

lemma find_mem_Some: "x \<in> set xs \<Longrightarrow> P x \<Longrightarrow> \<exists>y. find P xs = Some y"
  by (induction xs) auto

text \<open>
  C8, as the code has it. The online set holds user ids, not channel handles, and a
  disconnect deletes the user's id whatever else is connected: when another socket of
  the same user is still connected, the status lookup reports the user offline after
  the disconnect, while the socket scan that delivery uses still finds a socket of that
  user other than the disconnected one.
\<close>

theorem disconnect_evicts_user:
  assumes "b \<in> set (sockets s)" and "sid b \<noteq> sid a" and "userId b = userId a"
  shows "\<not> get_user_status (userId a) (fst (disconnect t a s))
         \<and> (\<exists>x. findSocket (userId a) (sockets (fst (disconnect t a s))) = Some x
                  \<and> sid x \<noteq> sid a)"
proof -
  let ?rest = "filter (\<lambda>x. sid x \<noteq> sid a) (sockets s)"
  have "b \<in> set ?rest" using assms(1,2) by simp
  then obtain x where x: "find (\<lambda>x. userId x = userId a) ?rest = Some x"
    using find_mem_Some [of b ?rest "\<lambda>x. userId x = userId a"] assms(3) by blast
  have "x \<in> set ?rest" using find_Some_mem [OF x] by blast
  then have "sid x \<noteq> sid a" by simp
  with x show ?thesis
    by (simp add: disconnect_def updateUserOfflineStatus_def get_user_status_def findSocket_def)
qed

theorem disconnect_evicts_user_witness:
  "\<lparr>sid = 11, userId = 1, fullName = [65]\<rparr>
     \<in> set (sockets (run [OnConnection \<lparr>sid = 10, userId = 1, fullName = [65]\<rparr>, OnTimer 1000 1,
                           OnConnection \<lparr>sid = 11, userId = 1, fullName = [65]\<rparr>, OnTimer 2000 1]
                      init_server))
   \<and> \<not> get_user_status 1 (fst (disconnect 3000 \<lparr>sid = 10, userId = 1, fullName = [65]\<rparr>
        (run [OnConnection \<lparr>sid = 10, userId = 1, fullName = [65]\<rparr>, OnTimer 1000 1,
              OnConnection \<lparr>sid = 11, userId = 1, fullName = [65]\<rparr>, OnTimer 2000 1]
           init_server)))"
proof -
  have m: "\<lparr>sid = 11, userId = 1, fullName = [65]\<rparr>
     \<in> set (sockets (run [OnConnection \<lparr>sid = 10, userId = 1, fullName = [65]\<rparr>, OnTimer 1000 1,
                           OnConnection \<lparr>sid = 11, userId = 1, fullName = [65]\<rparr>, OnTimer 2000 1]
                      init_server))"
    by (simp add: connection_def updateUserOnlineStatus_def init_server_def)
  have "\<not> get_user_status (userId \<lparr>sid = 10, userId = 1, fullName = [65]\<rparr>)
          (fst (disconnect 3000 \<lparr>sid = 10, userId = 1, fullName = [65]\<rparr>
        (run [OnConnection \<lparr>sid = 10, userId = 1, fullName = [65]\<rparr>, OnTimer 1000 1,
              OnConnection \<lparr>sid = 11, userId = 1, fullName = [65]\<rparr>, OnTimer 2000 1]
           init_server)))"
    using disconnect_evicts_user [OF m, of "\<lparr>sid = 10, userId = 1, fullName = [65]\<rparr>" 3000]
    by simp
  then show ?thesis using m by simp
qed

theorem stale_disconnect_counterexample:
  "get_user_status 1 (run [OnConnection \<lparr>sid = 10, userId = 1, fullName = [65]\<rparr>, OnTimer 1000 1,
                           OnConnection \<lparr>sid = 11, userId = 1, fullName = [65]\<rparr>, OnTimer 2000 1]
                        init_server)
   \<and> socketById 11 (run [OnConnection \<lparr>sid = 10, userId = 1, fullName = [65]\<rparr>, OnTimer 1000 1,
                           OnConnection \<lparr>sid = 11, userId = 1, fullName = [65]\<rparr>, OnTimer 2000 1,
                           OnDisconnect 3000 10] init_server)
       = Some \<lparr>sid = 11, userId = 1, fullName = [65]\<rparr>
   \<and> \<not> get_user_status 1 (run [OnConnection \<lparr>sid = 10, userId = 1, fullName = [65]\<rparr>, OnTimer 1000 1,
                           OnConnection \<lparr>sid = 11, userId = 1, fullName = [65]\<rparr>, OnTimer 2000 1,
                           OnDisconnect 3000 10] init_server)"
  by (simp add: connection_def updateUserOnlineStatus_def init_server_def get_user_status_def
        socketById_def disconnect_def updateUserOfflineStatus_def)

subsection \<open>One chat per pair\<close>

lemma chatMatches_sym: "chatMatches a b = chatMatches b a"
  by (auto simp: chatMatches_def fun_eq_iff)

lemma find_None_filter: "find P xs = None \<Longrightarrow> filter P xs = []"
  by (induction xs) (auto split: if_splits)

lemma find_Some_filter: "find P xs = Some x \<Longrightarrow> 1 \<le> length (filter P xs)"
  by (induction xs) (auto split: if_splits)

lemma find_append_new: "find P xs = None \<Longrightarrow> P x \<Longrightarrow> find P (xs @ [x]) = Some x"
  by (induction xs) (auto split: if_splits)

lemma new_chat_matches:
  "x \<noteq> y \<Longrightarrow> chatMatches x y \<lparr>cid = i, participants = [a, b]\<rparr> \<Longrightarrow>
   chatMatches x y = chatMatches a b"
  by (auto simp: chatMatches_def fun_eq_iff)

text \<open>
  C3, as the code has it. When one call of \<open>findOrCreateChat\<close> completes before the
  next starts, resolving (a, b) and then (b, a) gives the same chat and the second call
  stores nothing; if the pair had at most one chat it has exactly one afterwards, and no
  pair of distinct users that had at most one chat gets a second one.
\<close>

theorem findOrCreateChat_sequential:
  assumes "findOrCreateChat a b s = (c1, s1)" and "findOrCreateChat b a s1 = (c2, s2)"
  shows "c2 = c1 \<and> s2 = s1 \<and> chatMatches a b c1 \<and> c1 \<in> set (chats s1)
         \<and> (chatsFor a b s \<le> 1 \<longrightarrow> chatsFor a b s1 = 1 \<and> chatsFor b a s1 = 1)
         \<and> (\<forall>x y. x \<noteq> y \<longrightarrow> chatsFor x y s \<le> 1 \<longrightarrow> chatsFor x y s1 \<le> 1)"
proof (cases "find (chatMatches a b) (chats s)")
  case None
  let ?n = "\<lparr>cid = nextId s, participants = [a, b]\<rparr>"
  have c1: "c1 = ?n" and s1: "s1 = s\<lparr>chats := chats s @ [?n], nextId := Suc (nextId s)\<rparr>"
    using assms(1) None by (auto simp: findOrCreateChat_def findChat_def createChat_def)
  have mn: "chatMatches a b ?n" by (simp add: chatMatches_def)
  have "find (chatMatches b a) (chats s1) = Some ?n"
    using None mn by (simp add: s1 find_append_new chatMatches_sym [of b a])
  then have second: "c2 = c1 \<and> s2 = s1"
    using assms(2) by (simp add: findOrCreateChat_def findChat_def c1)
  have zero: "filter (chatMatches a b) (chats s) = []" using None by (rule find_None_filter)
  have one: "chatsFor a b s1 = 1 \<and> chatsFor b a s1 = 1"
    using zero mn by (simp add: chatsFor_def s1 chatMatches_sym [of b a])
  have others: "\<forall>x y. x \<noteq> y \<longrightarrow> chatsFor x y s \<le> 1 \<longrightarrow> chatsFor x y s1 \<le> 1"
  proof (intro allI impI)
    fix x y :: nat
    assume xy: "x \<noteq> y" and le: "chatsFor x y s \<le> 1"
    show "chatsFor x y s1 \<le> 1"
    proof (cases "chatMatches x y ?n")
      case True
      then have "chatMatches x y = chatMatches a b" using xy by (rule new_chat_matches [rotated])
      then show ?thesis using zero mn by (simp add: chatsFor_def s1)
    next
      case False
      then show ?thesis using le by (simp add: chatsFor_def s1)
    qed
  qed
  show ?thesis using second mn one others by (simp add: c1 s1)
next
  case (Some c)
  have c1: "c1 = c" and s1: "s1 = s"
    using assms(1) Some by (auto simp: findOrCreateChat_def findChat_def)
  have second: "c2 = c1 \<and> s2 = s1"
    using assms(2) Some by (simp add: findOrCreateChat_def findChat_def c1 s1 chatMatches_sym [of b a])
  have mem: "c \<in> set (chats s) \<and> chatMatches a b c" using find_Some_mem [OF Some] .
  have "1 \<le> chatsFor a b s" using find_Some_filter [OF Some] by (simp add: chatsFor_def)
  then have one: "chatsFor a b s \<le> 1 \<longrightarrow> chatsFor a b s1 = 1 \<and> chatsFor b a s1 = 1"
    by (simp add: s1 chatsFor_def chatMatches_sym [of b a])
  show ?thesis using second mem one by (simp add: c1 s1)
qed

theorem findOrCreateChat_sequential_witness:
  "findOrCreateChat 1 2 init_server
     = (\<lparr>cid = 0, participants = [1, 2]\<rparr>,
        init_server\<lparr>chats := [\<lparr>cid = 0, participants = [1, 2]\<rparr>], nextId := 1\<rparr>)
   \<and> findOrCreateChat 2 1 (init_server\<lparr>chats := [\<lparr>cid = 0, participants = [1, 2]\<rparr>], nextId := 1\<rparr>)
     = (\<lparr>cid = 0, participants = [1, 2]\<rparr>,
        init_server\<lparr>chats := [\<lparr>cid = 0, participants = [1, 2]\<rparr>], nextId := 1\<rparr>)
   \<and> chatsFor 1 2 init_server \<le> 1
   \<and> chatsFor 1 2 (init_server\<lparr>chats := [\<lparr>cid = 0, participants = [1, 2]\<rparr>], nextId := 1\<rparr>) = 1"
proof -
  let ?s1 = "init_server\<lparr>chats := [\<lparr>cid = 0, participants = [1, 2]\<rparr>], nextId := 1\<rparr>"
  have a: "findOrCreateChat 1 2 init_server = (\<lparr>cid = 0, participants = [1, 2]\<rparr>, ?s1)"
    by (simp add: findOrCreateChat_def findChat_def createChat_def init_server_def)
  have b: "findOrCreateChat 2 1 ?s1 = (\<lparr>cid = 0, participants = [1, 2]\<rparr>, ?s1)"
    by (simp add: findOrCreateChat_def findChat_def createChat_def init_server_def chatMatches_def)
  have c: "chatsFor 1 2 init_server \<le> 1" by (simp add: chatsFor_def init_server_def)
  show ?thesis using a b c findOrCreateChat_sequential [OF a b] by simp
qed

theorem concurrent_resolve_counterexample:
  "chatsFor 1 2 (snd (findOrCreateChat_interleaved 1 2 2 1 init_server)) = 2
   \<and> fst (fst (findOrCreateChat_interleaved 1 2 2 1 init_server)) = \<lparr>cid = 0, participants = [1, 2]\<rparr>
   \<and> snd (fst (findOrCreateChat_interleaved 1 2 2 1 init_server)) = \<lparr>cid = 1, participants = [2, 1]\<rparr>"
  by (simp add: findOrCreateChat_interleaved_def findChat_def createChat_def init_server_def
        chatsFor_def chatMatches_def)

subsection \<open>Evaluating the scenarios\<close>

lemmas model_defs =
  init_server_def alice_def bob_def ticking_def stalling_def hi_def
  connection_def updateUserOnlineStatus_def updateUserOfflineStatus_def disconnect_def
  get_user_status_def socketById_def findSocket_def findById_def findByIdAndUpdate_def
  updateMany_def setDelivered_def setRead_def newMessage_def save_def
  chatMatches_def findChat_def createChat_def findOrCreateChat_def chatsFor_def
  trim_def isWhiteSpace_def isHighSurrogate_def isLowSurrogate_def asStored_def
  sentAck_def markDelivered_def
  send_message_finish_def send_message_def
  toReader_def notBefore_def distinctInOrder_def otherParticipantSocket_def
  message_read_updates_def recentSentMessages_def message_read_def Let_def

lemma race_pushed_value:
  "race_pushed =
     (\<lparr>chats = [\<lparr>cid = 0, participants = [1, 2]\<rparr>],
       messages = [\<lparr>mid = 1, chatId = 0, sender = 1, receiver = 2, content = [104, 105],
                    timestamp = 1000, status = Sent, deliveredAt = None, readAt = None\<rparr>],
       sockets = [alice, bob], onlineUsers = {}, readRoute = True, nextId = 2\<rparr>,
      [(10, MessageSent 1 0 [104, 105] 1000),
       (10, ChatUpdated 0 1 [65] [104, 105] 1000),
       (20, NewMessage 1 [104, 105] 1 [65] 1000 0 2 Sent)],
      Pushed \<lparr>mid = 1, chatId = 0, sender = 1, receiver = 2, content = [104, 105],
               timestamp = 1000, status = Sent, deliveredAt = None, readAt = None\<rparr>
             \<lparr>cid = 0, participants = [1, 2]\<rparr>)"
  by (simp add: race_pushed_def model_defs)

lemma race_read_value:
  "race_read =
     (\<lparr>chats = [\<lparr>cid = 0, participants = [1, 2]\<rparr>],
       messages = [\<lparr>mid = 1, chatId = 0, sender = 1, receiver = 2, content = [104, 105],
                    timestamp = 1000, status = Read, deliveredAt = Some 2001,
                    readAt = Some 2002\<rparr>],
       sockets = [alice, bob], onlineUsers = {}, readRoute = True, nextId = 2\<rparr>,
      [(10, MessageRead 0 2 None 2003 2)], ReadOk 1 1 2)"
  by (simp add: race_read_def race_pushed_value) (simp add: model_defs)

text \<open>
  C1. In the race the message is at status sent after the push, at status read (with
  both timestamps) after the receiver's read request, and back at status delivered once
  the sender's handler has resumed: its update by id carries no condition on the
  status. \<open>deliveredAt\<close> is overwritten and \<open>readAt\<close> stays set.
\<close>

theorem push_path_update_regresses_status:
  "map status (messages (fst race_pushed)) = [Sent]
   \<and> map status (messages (fst race_read)) = [Read]
   \<and> map deliveredAt (messages (fst race_read)) = [Some 2001]
   \<and> map status (messages (fst race_finished)) = [Delivered]
   \<and> map deliveredAt (messages (fst race_finished)) = [Some 1001]
   \<and> map readAt (messages (fst race_finished)) = [Some 2002]"
  by (simp add: race_finished_def race_read_value race_pushed_value) (simp add: model_defs)

lemma second_unread_value:
  "second_unread =
     \<lparr>chats = [\<lparr>cid = 0, participants = [1, 2]\<rparr>],
      messages = [\<lparr>mid = 1, chatId = 0, sender = 1, receiver = 2, content = [104, 105],
                   timestamp = 1000, status = Read, deliveredAt = Some 1001,
                   readAt = Some 2000\<rparr>,
                  \<lparr>mid = 2, chatId = 0, sender = 1, receiver = 2, content = [104, 105],
                   timestamp = 3000, status = Delivered, deliveredAt = Some 3001,
                   readAt = None\<rparr>],
      sockets = [alice, bob], onlineUsers = {}, readRoute = True, nextId = 3\<rparr>"
  by (simp add: second_unread_def model_defs)

lemma offline_unread_value:
  "offline_unread =
     \<lparr>chats = [\<lparr>cid = 0, participants = [1, 2]\<rparr>],
      messages = [\<lparr>mid = 1, chatId = 0, sender = 1, receiver = 2, content = [104, 105],
                   timestamp = 1000, status = Sent, deliveredAt = None, readAt = None\<rparr>],
      sockets = [alice], onlineUsers = {}, readRoute = True, nextId = 2\<rparr>"
  by (simp add: offline_unread_def model_defs)

text \<open>
  C6. In \<open>second_unread\<close> Bob's read signal over the socket moves one message to read
  and the notification to Alice says \<open>messageCount = 2\<close>: it counts the message an
  earlier call had read. In \<open>offline_unread\<close> Bob's read request over HTTP moves one
  message to read and the notification says \<open>messageCount = 2\<close>: the message is counted
  once for the grace-window bump and once for the read.
\<close>

theorem read_notification_miscounts:
  "map status (messages second_unread) = [Read, Delivered]
   \<and> map status (messages (fst (message_read (ticking 4000) True bob 0 second_unread)))
       = [Read, Read]
   \<and> snd (message_read (ticking 4000) True bob 0 second_unread)
       = [(10, MessageRead 0 2 (Some [66]) 4002 2)]
   \<and> map status (messages offline_unread) = [Sent]
   \<and> map status (messages (fst (post_messages_read (ticking 2000) True (ValidToken 2) 0
                                  offline_unread))) = [Read]
   \<and> fst (snd (post_messages_read (ticking 2000) True (ValidToken 2) 0 offline_unread))
       = [(10, MessageRead 0 2 None 2003 2)]"
  by (simp add: second_unread_value offline_unread_value) (simp add: model_defs)

subsection \<open>Read receipts\<close>

lemma updateMany_length: "length (fst (updateMany flt upd ms)) = length ms"
  by (simp add: updateMany_def)

lemma updateMany_nth:
  "k < length ms \<Longrightarrow>
   fst (updateMany flt upd ms) ! k = (if flt (ms ! k) then upd (ms ! k) else ms ! k)"
  by (simp add: updateMany_def)

lemma updateMany_none:
  "list_all (\<lambda>m. \<not> flt m) ms \<Longrightarrow> updateMany flt upd ms = (ms, 0)"
  by (induction ms) (auto simp: updateMany_def)

lemma updateMany_set:
  "x \<in> set (fst (updateMany flt upd ms)) \<Longrightarrow>
   \<exists>m \<in> set ms. x = (if flt m then upd m else m)"
  by (auto simp: updateMany_def)




lemma no_delivered_after_read:
  "list_all (\<lambda>x. \<not> toReader c u Delivered x)
     (fst (updateMany (toReader c u Delivered) (setRead t) ms))"
  by (induction ms) (auto simp: updateMany_def toReader_def setRead_def)

lemma post_messages_read_leaves:
  assumes "x \<in> set (fst (updateMany (toReader c u Delivered) (setRead t2)
             (fst (updateMany (\<lambda>m. toReader c u Sent m \<and> b \<le> timestamp m)
                    (setDelivered t1) ms))))"
  shows "\<not> toReader c u Delivered x \<and> (toReader c u Sent x \<longrightarrow> timestamp x < b)"
proof -
  obtain m1 where m1: "m1 \<in> set (fst (updateMany (\<lambda>m. toReader c u Sent m \<and> b \<le> timestamp m)
                    (setDelivered t1) ms))"
    and x: "x = (if toReader c u Delivered m1 then setRead t2 m1 else m1)"
    using updateMany_set [OF assms] by blast
  obtain m where m: "m \<in> set ms"
    and m1': "m1 = (if toReader c u Sent m \<and> b \<le> timestamp m then setDelivered t1 m else m)"
    using updateMany_set [OF m1] by blast
  show ?thesis
    using x m1' by (auto simp: toReader_def setRead_def setDelivered_def split: if_splits)
qed

lemma message_read_updates_leaves:
  assumes "x \<in> set (message_read_updates clk c u ms)"
    and "clk 1 \<le> clk 2" and "clk 4 - clk 3 \<le> 5000"
  shows "\<not> toReader c u Delivered x \<and> (toReader c u Sent x \<longrightarrow> timestamp x < clk 2 - 60000)"
proof -
  let ?ms1 = "fst (updateMany (toReader c u Delivered) (setRead (clk 0)) ms)"
  let ?recent = "filter (\<lambda>m. toReader c u Sent m \<and> clk 1 - 60000 \<le> timestamp m) ?ms1"
  have nd1: "\<And>y. y \<in> set ?ms1 \<Longrightarrow> \<not> toReader c u Delivered y"
    using no_delivered_after_read [of c u "clk 0" ms] by (simp add: list_all_iff)
  show ?thesis
  proof (cases "?recent = []")
    case True
    then have x1: "x \<in> set ?ms1" using assms(1) by (simp add: message_read_updates_def recentSentMessages_def Let_def)
    have "toReader c u Sent x \<longrightarrow> timestamp x < clk 1 - 60000"
      using True x1 by (auto simp: filter_empty_conv)
    then show ?thesis using nd1 [OF x1] assms(2) by auto
  next
    case False
    let ?ms2 = "fst (updateMany (\<lambda>m. toReader c u Sent m \<and> clk 2 - 60000 \<le> timestamp m)
                       (setDelivered (clk 3)) ?ms1)"
    have "x \<in> set (fst (updateMany
             (\<lambda>m. toReader c u Delivered m \<and> notBefore (clk 4 - 5000) (deliveredAt m))
             (setRead (clk 5)) ?ms2))"
      using False assms(1) by (simp add: message_read_updates_def recentSentMessages_def Let_def)
    then obtain m2 where m2: "m2 \<in> set ?ms2"
      and x: "x = (if toReader c u Delivered m2 \<and> notBefore (clk 4 - 5000) (deliveredAt m2)
                   then setRead (clk 5) m2 else m2)"
      using updateMany_set by blast
    obtain m1 where m1: "m1 \<in> set ?ms1"
      and m2': "m2 = (if toReader c u Sent m1 \<and> clk 2 - 60000 \<le> timestamp m1
                      then setDelivered (clk 3) m1 else m1)"
      using updateMany_set [OF m2] by blast
    show ?thesis
      using x m2' nd1 [OF m1] assms(3)
      by (auto simp: toReader_def setRead_def setDelivered_def notBefore_def split: if_splits)
  qed
qed

text \<open>
  C5, as the code has it. A second read signal for the same chat and reader, with no
  other handler in between and a clock that has not gone back, changes no stored
  message: over HTTP it answers with the three counts 0, and still sends the
  notification, with \<open>messageCount = 0\<close>, to the other participant's socket when there is
  one. Over the socket the store is unchanged as well when the first run's read step
  came within five seconds of its bump.
\<close>

theorem read_signal_twice:
  assumes "s1 = fst (post_messages_read clk True (ValidToken u) c s)"
    and "clk 0 \<le> clk' 0"
    and "t1 = fst (message_read clk True sock c s)"
  shows "post_messages_read clk' True (ValidToken u) c s1 =
           (s1,
            (case otherParticipantSocket c u s1 of
               None \<Rightarrow> []
             | Some senderSocket \<Rightarrow> [(sid senderSocket, MessageRead c u None (clk' 3) 0)]),
            ReadOk 0 0 0)
         \<and> (clk 1 \<le> clk 2 \<and> clk 4 - clk 3 \<le> 5000 \<and> clk 2 \<le> clk' 1 \<longrightarrow>
              fst (message_read clk' True sock c t1) = t1)"
proof (intro conjI impI)
  let ?ms = "messages s1"
  have leaves: "\<forall>x \<in> set ?ms.
      \<not> toReader c u Delivered x \<and> (toReader c u Sent x \<longrightarrow> timestamp x < clk 0 - 60000)"
    using post_messages_read_leaves [of _ c u "clk 2" "clk 0 - 60000" "clk 1" "messages s"]
    by (simp add: assms(1) Let_def)
  have a: "\<And>t. updateMany (\<lambda>m. toReader c u Sent m \<and> clk' 0 - 60000 \<le> timestamp m)
             (setDelivered t) ?ms = (?ms, 0)"
    using leaves assms(2) by (intro updateMany_none) (fastforce simp: list_all_iff)
  have b: "\<And>t. updateMany (toReader c u Delivered) (setRead t) ?ms = (?ms, 0)"
    using leaves by (intro updateMany_none) (auto simp: list_all_iff)
  show "post_messages_read clk' True (ValidToken u) c s1 =
           (s1,
            (case otherParticipantSocket c u s1 of
               None \<Rightarrow> []
             | Some senderSocket \<Rightarrow> [(sid senderSocket, MessageRead c u None (clk' 3) 0)]),
            ReadOk 0 0 0)"
    by (simp add: Let_def a b split: option.splits)
next
  assume h: "clk 1 \<le> clk 2 \<and> clk 4 - clk 3 \<le> 5000 \<and> clk 2 \<le> clk' 1"
  let ?v = "userId sock"
  let ?ms = "messages t1"
  have ms: "?ms = message_read_updates clk c ?v (messages s)"
    by (simp add: assms(3) message_read_def Let_def)
  have leaves: "\<forall>x \<in> set ?ms.
      \<not> toReader c ?v Delivered x \<and> (toReader c ?v Sent x \<longrightarrow> timestamp x < clk 2 - 60000)"
    using message_read_updates_leaves [of _ clk c ?v "messages s"] h by (simp add: ms)
  have a: "\<And>t. updateMany (toReader c ?v Delivered) (setRead t) ?ms = (?ms, 0)"
    using leaves by (intro updateMany_none) (auto simp: list_all_iff)
  have b: "filter (\<lambda>m. toReader c ?v Sent m \<and> clk' (Suc 0) - 60000 \<le> timestamp m) ?ms = []"
    using leaves h by (fastforce simp: filter_empty_conv)
  have "message_read_updates clk' c ?v ?ms = ?ms"
    by (simp add: message_read_updates_def recentSentMessages_def Let_def a b)
  then show "fst (message_read clk' True sock c t1) = t1"
    by (simp add: message_read_def Let_def)
qed

theorem read_signal_twice_witness:
  "ticking 2000 0 \<le> ticking 3000 0 \<and> ticking 2000 1 \<le> ticking 2000 2
   \<and> ticking 2000 4 - ticking 2000 3 \<le> 5000 \<and> ticking 2000 2 \<le> ticking 3000 1
   \<and> snd (snd (post_messages_read (ticking 2000) True (ValidToken 2) 0 offline_unread))
       = ReadOk 1 1 2
   \<and> snd (snd (post_messages_read (ticking 3000) True (ValidToken 2) 0
         (fst (post_messages_read (ticking 2000) True (ValidToken 2) 0 offline_unread))))
       = ReadOk 0 0 0
   \<and> fst (message_read (ticking 3000) True bob 0
         (fst (message_read (ticking 2000) True bob 0 offline_unread)))
       = fst (message_read (ticking 2000) True bob 0 offline_unread)"
proof -
  have h: "ticking 2000 0 \<le> ticking 3000 0" "ticking 2000 1 \<le> ticking 2000 2"
    "ticking 2000 4 - ticking 2000 3 \<le> 5000" "ticking 2000 2 \<le> ticking 3000 1"
    by (simp_all add: ticking_def)
  note r = read_signal_twice [where clk = "ticking 2000" and clk' = "ticking 3000" and u = 2
      and c = 0 and s = offline_unread and sock = bob, OF refl h(1) refl]
  have first: "snd (snd (post_messages_read (ticking 2000) True (ValidToken 2) 0 offline_unread))
       = ReadOk 1 1 2"
    by (simp add: offline_unread_value) (simp add: model_defs)
  show ?thesis using h r first by simp
qed

theorem second_read_notifies_counterexample:
  "snd (snd (post_messages_read (ticking 3000) True (ValidToken 2) 0
         (fst (post_messages_read (ticking 2000) True (ValidToken 2) 0 offline_unread))))
     = ReadOk 0 0 0
   \<and> fst (snd (post_messages_read (ticking 3000) True (ValidToken 2) 0
         (fst (post_messages_read (ticking 2000) True (ValidToken 2) 0 offline_unread))))
     = [(10, MessageRead 0 2 None 3003 0)]"
  by (simp add: offline_unread_value) (simp add: model_defs)

subsection \<open>What one handler does to the stored messages\<close>

lemma findOneAndUpdate_last:
  "list_all (\<lambda>x. \<not> flt x) xs \<Longrightarrow> flt m \<Longrightarrow>
   fst (findOneAndUpdate flt upd (xs @ [m])) = xs @ [upd m]"
  by (induction xs) auto

lemma findOneAndUpdate_nth:
  "k < length ms \<Longrightarrow> \<not> flt (ms ! k) \<Longrightarrow> fst (findOneAndUpdate flt upd ms) ! k = ms ! k"
proof (induction ms arbitrary: k)
  case Nil
  then show ?case by simp
next
  case (Cons a ms)
  then show ?case by (cases k) auto
qed

text \<open>A submission over the socket leaves the stored messages as they are, or appends one
  new message with a fresh id, at status sent or, after a push, delivered.\<close>

lemma send_message_effect:
  assumes "ids_below s" and "send_message clk up sock receiverId content' s = (s', out)"
  shows "nextId s \<le> nextId s' \<and> sockets s' = sockets s \<and> readRoute s' = readRoute s
         \<and> (messages s' = messages s
             \<or> (\<exists>i c txt. nextId s \<le> i \<and> nextId s' = Suc i
                  \<and> (messages s' = messages s @ [newMessage i c (userId sock) (the receiverId) txt (clk 0)]
                      \<or> messages s' = messages s @
                           [setDelivered (clk 1)
                              (newMessage i c (userId sock) (the receiverId) txt (clk 0))])))"
proof (cases "\<exists>r x xs. receiverId = Some r \<and> content' = Some (x # xs)")
  case False
  then have "send_message_push clk up sock receiverId content' s = (s, [], Aborted)"
    by (cases receiverId; cases content'; cases "the content'") auto
  then show ?thesis using assms(2) by (auto simp: send_message_def send_message_finish_def)
next
  case True
  then obtain r x xs where rc: "receiverId = Some r" "content' = Some (x # xs)" by blast
  obtain ch s0 where f: "findOrCreateChat (userId sock) r s = (ch, s0)" by force
  note k = findOrCreateChat_keeps [OF f]
  let ?m = "newMessage (nextId s0) (cid ch) (userId sock) r (toWellFormed (trim (x # xs))) (clk 0)"
  have old: "list_all (\<lambda>m. mid m \<noteq> nextId s0) (messages s)"
    using assms(1) k by (auto simp: ids_below_def list_all_iff)
  have upd: "fst (findByIdAndUpdate (nextId s0) (setDelivered (clk 1)) (messages s @ [?m]))
               = messages s @ [setDelivered (clk 1) ?m]"
    unfolding findByIdAndUpdate_def using old
    by (intro findOneAndUpdate_last) (auto simp: newMessage_fields)
  have shape: "nextId s \<le> nextId s' \<and> sockets s' = sockets s \<and> readRoute s' = readRoute s
      \<and> (messages s' = messages s
          \<or> nextId s' = Suc (nextId s0)
             \<and> (messages s' = messages s @ [?m]
                 \<or> messages s' = messages s @ [setDelivered (clk 1) ?m]))"
    using assms(2) k upd
    by (cases "findSocket r (sockets s)")
       (auto simp: rc f send_message_def send_message_finish_def save_def markDelivered_def
          Let_def newMessage_fields asStored_newMessage split: if_splits)
  show ?thesis
  proof (cases "messages s' = messages s")
    case True
    then show ?thesis using shape by simp
  next
    case False
    then have "nextId s \<le> nextId s0 \<and> nextId s' = Suc (nextId s0)
      \<and> (messages s' = messages s @ [newMessage (nextId s0) (cid ch) (userId sock)
                                         (the receiverId) (toWellFormed (trim (x # xs))) (clk 0)]
          \<or> messages s' = messages s @ [setDelivered (clk 1)
               (newMessage (nextId s0) (cid ch) (userId sock) (the receiverId)
                  (toWellFormed (trim (x # xs))) (clk 0))])"
      using shape k by (simp add: rc)
    then show ?thesis using shape by blast
  qed
qed

lemma post_messages_send_effect:
  assumes "post_messages_send clk up a receiverId content' s = (s', resp)"
  shows "nextId s \<le> nextId s' \<and> sockets s' = sockets s \<and> readRoute s' = readRoute s
         \<and> (messages s' = messages s
             \<or> (\<exists>i c u txt. nextId s \<le> i \<and> nextId s' = Suc i
                  \<and> messages s' = messages s @ [newMessage i c u (the receiverId) txt (clk 0)]))"
proof (cases "\<exists>u r x xs. a = ValidToken u \<and> receiverId = Some r \<and> content' = Some (x # xs)")
  case False
  then have "post_messages_send clk up a receiverId content' s = (s, resp)"
    using assms by (cases a; cases receiverId; cases content'; cases "the content'") auto
  then show ?thesis using assms by simp
next
  case True
  then obtain u r x xs where rc: "a = ValidToken u" "receiverId = Some r" "content' = Some (x # xs)"
    by blast
  obtain ch s0 where f: "findOrCreateChat u r s = (ch, s0)" by force
  note k = findOrCreateChat_keeps [OF f]
  let ?m = "newMessage (nextId s0) (cid ch) u r (toWellFormed (trim (x # xs))) (clk 0)"
  have shape: "nextId s \<le> nextId s' \<and> sockets s' = sockets s \<and> readRoute s' = readRoute s
      \<and> (messages s' = messages s
          \<or> nextId s' = Suc (nextId s0) \<and> messages s' = messages s @ [?m])"
    using assms k
    by (auto simp: rc f save_def Let_def newMessage_fields asStored_newMessage split: if_splits)
  show ?thesis
  proof (cases "messages s' = messages s")
    case True
    then show ?thesis using shape by simp
  next
    case False
    then have "nextId s \<le> nextId s0 \<and> nextId s' = Suc (nextId s0)
      \<and> messages s' = messages s @ [newMessage (nextId s0) (cid ch) u (the receiverId)
                                        (toWellFormed (trim (x # xs))) (clk 0)]"
      using shape k by (simp add: rc)
    then show ?thesis using shape by blast
  qed
qed

text \<open>The read handlers and the delivery acknowledgment only apply \<open>setDelivered\<close> to
  messages at status sent and \<open>setRead\<close> to messages at status delivered; both keep a
  well-stamped message well-stamped and keep its id.\<close>

lemma updateMany_keeps:
  assumes "list_all Q ms" and "\<And>m. Q m \<Longrightarrow> flt m \<Longrightarrow> Q (upd m)"
  shows "list_all Q (fst (updateMany flt upd ms))"
  using assms by (induction ms) (auto simp: updateMany_def)

lemma findOneAndUpdate_keeps:
  assumes "list_all Q ms" and "\<And>m. Q m \<Longrightarrow> flt m \<Longrightarrow> Q (upd m)"
  shows "list_all Q (fst (findOneAndUpdate flt upd ms))"
  using assms by (induction ms) auto

lemma sound_older:
  "list_all (\<lambda>m. stamps_ok m \<and> mid m < n) ms \<Longrightarrow> n \<le> n' \<Longrightarrow>
   list_all (\<lambda>m. stamps_ok m \<and> mid m < n') ms"
  by (induction ms) auto

lemma sound_appended:
  assumes "list_all (\<lambda>m. stamps_ok m \<and> mid m < n) ms" and "n \<le> i"
  shows "list_all (\<lambda>m. stamps_ok m \<and> mid m < Suc i) (ms @ [newMessage i c a b body t])"
    and "list_all (\<lambda>m. stamps_ok m \<and> mid m < Suc i)
           (ms @ [setDelivered t' (newMessage i c a b body t)])"
proof -
  have "list_all (\<lambda>m. stamps_ok m \<and> mid m < Suc i) ms"
    using assms(1) by (rule sound_older) (use assms(2) in simp)
  then show "list_all (\<lambda>m. stamps_ok m \<and> mid m < Suc i) (ms @ [newMessage i c a b body t])"
    and "list_all (\<lambda>m. stamps_ok m \<and> mid m < Suc i)
           (ms @ [setDelivered t' (newMessage i c a b body t)])"
    by (simp_all add: newMessage_def setDelivered_def stamps_ok_def)
qed

lemma message_read_updates_keeps:
  assumes "list_all (\<lambda>m. stamps_ok m \<and> mid m < n) ms"
  shows "list_all (\<lambda>m. stamps_ok m \<and> mid m < n) (message_read_updates clk c u ms)"
proof -
  let ?Q = "\<lambda>m. stamps_ok m \<and> mid m < n"
  let ?ms1 = "fst (updateMany (toReader c u Delivered) (setRead (clk 0)) ms)"
  let ?ms2 = "fst (updateMany (\<lambda>m. toReader c u Sent m \<and> clk 2 - 60000 \<le> timestamp m)
                     (setDelivered (clk 3)) ?ms1)"
  let ?ms3 = "fst (updateMany
                     (\<lambda>m. toReader c u Delivered m \<and> notBefore (clk 4 - 5000) (deliveredAt m))
                     (setRead (clk 5)) ?ms2)"
  have 1: "list_all ?Q ?ms1"
    using assms by (rule updateMany_keeps) (auto simp: toReader_def stamps_ok_def setRead_def)
  have 2: "list_all ?Q ?ms2"
    using 1 by (rule updateMany_keeps) (auto simp: toReader_def stamps_ok_def setDelivered_def)
  have 3: "list_all ?Q ?ms3"
    using 2 by (rule updateMany_keeps) (auto simp: toReader_def stamps_ok_def setRead_def)
  show ?thesis using 1 3 by (simp add: message_read_updates_def recentSentMessages_def Let_def)
qed

lemma post_messages_read_keeps:
  assumes "list_all (\<lambda>m. stamps_ok m \<and> mid m < n) (messages s)"
  shows "list_all (\<lambda>m. stamps_ok m \<and> mid m < n)
           (messages (fst (post_messages_read clk up a c s)))
         \<and> nextId (fst (post_messages_read clk up a c s)) = nextId s"
proof (cases a)
  case (ValidToken u)
  let ?Q = "\<lambda>m. stamps_ok m \<and> mid m < n"
  let ?ms1 = "fst (updateMany (\<lambda>m. toReader c u Sent m \<and> clk 0 - 60000 \<le> timestamp m)
                     (setDelivered (clk 1)) (messages s))"
  have 1: "list_all ?Q ?ms1"
    using assms by (rule updateMany_keeps) (auto simp: toReader_def stamps_ok_def setDelivered_def)
  have 2: "list_all ?Q (fst (updateMany (toReader c u Delivered) (setRead (clk 2)) ?ms1))"
    using 1 by (rule updateMany_keeps) (auto simp: toReader_def stamps_ok_def setRead_def)
  show ?thesis using assms 2 by (simp add: ValidToken Let_def)
qed (use assms in simp_all)

lemma post_messages_delivered_keeps:
  assumes "list_all (\<lambda>m. stamps_ok m \<and> mid m < n) (messages s)"
  shows "list_all (\<lambda>m. stamps_ok m \<and> mid m < n)
           (messages (fst (post_messages_delivered clk up a i s)))
         \<and> nextId (fst (post_messages_delivered clk up a i s)) = nextId s"
proof (cases a)
  case (ValidToken u)
  let ?r = "findOneAndUpdate (\<lambda>m. mid m = i \<and> status m = Sent) (setDelivered (clk 0)) (messages s)"
  have "list_all (\<lambda>m. stamps_ok m \<and> mid m < n) (fst ?r)"
    using assms by (rule findOneAndUpdate_keeps) (auto simp: stamps_ok_def setDelivered_def)
  then show ?thesis
    using assms by (cases ?r) (auto simp: ValidToken split: option.splits)
qed (use assms in simp_all)

text \<open>One event keeps every stored message well stamped and its id below the next fresh
  id.\<close>

lemma sound_step:
  assumes "list_all (\<lambda>m. stamps_ok m \<and> mid m < nextId s) (messages s)"
  shows "list_all (\<lambda>m. stamps_ok m \<and> mid m < nextId (step e s)) (messages (step e s))"
proof (cases e)
  case (OnConnection sock)
  then show ?thesis using assms by (simp add: connection_def)
next
  case (OnTimer t u)
  then show ?thesis using assms by (simp add: updateUserOnlineStatus_def)
next
  case (OnDisconnect t i)
  then show ?thesis
    using assms by (simp add: disconnect_def updateUserOfflineStatus_def split: option.splits)
next
  case (OnSendMessage clk up i receiverId content')
  show ?thesis
  proof (cases "socketById i s")
    case None
    then show ?thesis using assms OnSendMessage by simp
  next
    case (Some sock)
    obtain s' out where r: "send_message clk up sock receiverId content' s = (s', out)" by force
    have ib: "ids_below s" using assms by (simp add: ids_below_def list_all_iff)
    note e = send_message_effect [OF ib r]
    have "list_all (\<lambda>m. stamps_ok m \<and> mid m < nextId s') (messages s')"
    proof (cases "messages s' = messages s")
      case True
      then show ?thesis using e assms sound_older [of "nextId s" "messages s" "nextId s'"] by simp
    next
      case False
      then obtain i c body where n: "nextId s \<le> i" "nextId s' = Suc i"
        and m: "messages s' = messages s @ [newMessage i c (userId sock) (the receiverId) body (clk 0)]
                \<or> messages s' = messages s @
                     [setDelivered (clk 1)
                        (newMessage i c (userId sock) (the receiverId) body (clk 0))]"
        using e by blast
      from m show ?thesis
      proof
        assume "messages s' = messages s @ [newMessage i c (userId sock) (the receiverId) body (clk 0)]"
        then show ?thesis using sound_appended(1) [OF assms n(1)] n(2) by simp
      next
        assume "messages s' = messages s @
                     [setDelivered (clk 1)
                        (newMessage i c (userId sock) (the receiverId) body (clk 0))]"
        then show ?thesis using sound_appended(2) [OF assms n(1)] n(2) by simp
      qed
    qed
    then show ?thesis using OnSendMessage Some r by simp
  qed
next
  case (OnMessageRead clk up i c)
  show ?thesis
  proof (cases "socketById i s")
    case None
    then show ?thesis using assms OnMessageRead by simp
  next
    case (Some sock)
    then show ?thesis
      using assms OnMessageRead message_read_updates_keeps [OF assms, of clk c "userId sock"]
      by (simp add: message_read_def Let_def)
  qed
next
  case (PostMessagesSend clk up a receiverId content')
  obtain s' resp where r: "post_messages_send clk up a receiverId content' s = (s', resp)"
    by force
  note e = post_messages_send_effect [OF r]
  have "list_all (\<lambda>m. stamps_ok m \<and> mid m < nextId s') (messages s')"
  proof (cases "messages s' = messages s")
    case True
    then show ?thesis using e assms sound_older [of "nextId s" "messages s" "nextId s'"] by simp
  next
    case False
    then obtain i c u body where n: "nextId s \<le> i" "nextId s' = Suc i"
      and m: "messages s' = messages s @ [newMessage i c u (the receiverId) body (clk 0)]"
      using e by blast
    show ?thesis using sound_appended(1) [OF assms n(1)] n(2) m by simp
  qed
  then show ?thesis using PostMessagesSend r by simp
next
  case (PostMessagesDelivered clk up a i)
  then show ?thesis using post_messages_delivered_keeps [OF assms, of clk up a i] by simp
next
  case (PostMessagesRead clk up a c)
  then show ?thesis using assms post_messages_read_keeps [OF assms, of clk up a c] by simp
qed

lemma sound_run:
  "list_all (\<lambda>m. stamps_ok m \<and> mid m < nextId s) (messages s) \<Longrightarrow>
   list_all (\<lambda>m. stamps_ok m \<and> mid m < nextId (run evs s)) (messages (run evs s))"
proof (induction evs arbitrary: s)
  case Nil
  then show ?case by simp
next
  case (Cons e evs)
  have "list_all (\<lambda>m. stamps_ok m \<and> mid m < nextId (step e s)) (messages (step e s))"
    using Cons.prems by (rule sound_step)
  then show ?case using Cons.IH by simp
qed

text \<open>
  C7, as the code has it. In the server of \<open>server.js\<close>, when every handler runs to
  completion before the next one starts, every stored message after any sequence of
  events has \<open>deliveredAt\<close> set exactly when its status is delivered or read, and
  \<open>readAt\<close> set exactly when its status is read.
\<close>

theorem stamps_follow_status: "list_all stamps_ok (messages (run evs init_server))"
proof -
  have "list_all (\<lambda>m. stamps_ok m \<and> mid m < nextId init_server) (messages init_server)"
    by (simp add: init_server_def)
  then have "list_all (\<lambda>m. stamps_ok m \<and> mid m < nextId (run evs init_server))
               (messages (run evs init_server))"
    by (rule sound_run)
  then show ?thesis by (simp add: list_all_iff)
qed

theorem variant_stamps_counterexample:
  "map status (messages (fst (send_message_variant (ticking 1000) True alice (Some 2) (Some hi)
                                (run [OnConnection alice, OnConnection bob] init_server))))
     = [Sent]
   \<and> map deliveredAt (messages (fst (send_message_variant (ticking 1000) True alice (Some 2)
                                (Some hi) (run [OnConnection alice, OnConnection bob] init_server))))
     = [Some 1000]
   \<and> \<not> list_all stamps_ok (messages (fst (send_message_variant (ticking 1000) True alice (Some 2)
                                (Some hi) (run [OnConnection alice, OnConnection bob] init_server))))"
  by (simp add: model_defs stamps_ok_def)

subsection \<open>A message nobody acknowledges or reads\<close>

lemma message_read_updates_length: "length (message_read_updates clk c u ms) = length ms"
  by (simp add: message_read_updates_def recentSentMessages_def Let_def updateMany_length)

lemma updateMany_nth_skip:
  "k < length ms \<Longrightarrow> \<not> flt (ms ! k) \<Longrightarrow> fst (updateMany flt upd ms) ! k = ms ! k"
  by (simp add: updateMany_nth)

lemma message_read_updates_nth:
  assumes "k < length ms" and "\<not> (chatId (ms ! k) = c \<and> receiver (ms ! k) = u)"
  shows "message_read_updates clk c u ms ! k = ms ! k"
proof -
  let ?ms1 = "fst (updateMany (toReader c u Delivered) (setRead (clk 0)) ms)"
  let ?ms2 = "fst (updateMany (\<lambda>m. toReader c u Sent m \<and> clk 2 - 60000 \<le> timestamp m)
                     (setDelivered (clk 3)) ?ms1)"
  let ?ms3 = "fst (updateMany
                     (\<lambda>m. toReader c u Delivered m \<and> notBefore (clk 4 - 5000) (deliveredAt m))
                     (setRead (clk 5)) ?ms2)"
  have 1: "?ms1 ! k = ms ! k"
    using assms by (intro updateMany_nth_skip) (auto simp: toReader_def)
  have "?ms2 ! k = ?ms1 ! k"
    by (rule updateMany_nth_skip) (use assms 1 in \<open>auto simp: updateMany_length toReader_def\<close>)
  then have 2: "?ms2 ! k = ms ! k" using 1 by simp
  have "?ms3 ! k = ?ms2 ! k"
    by (rule updateMany_nth_skip) (use assms 2 in \<open>auto simp: updateMany_length toReader_def\<close>)
  then have 3: "?ms3 ! k = ms ! k" using 2 by simp
  show ?thesis using 1 3 by (simp add: message_read_updates_def recentSentMessages_def Let_def)
qed

lemma post_messages_read_nth:
  assumes "k < length (messages s)"
    and "\<not> (chatId (messages s ! k) = c \<and> a = ValidToken (receiver (messages s ! k)))"
  shows "messages (fst (post_messages_read clk up a c s)) ! k = messages s ! k
         \<and> length (messages (fst (post_messages_read clk up a c s))) = length (messages s)"
proof (cases a)
  case (ValidToken u)
  let ?ms1 = "fst (updateMany (\<lambda>m. toReader c u Sent m \<and> clk 0 - 60000 \<le> timestamp m)
                     (setDelivered (clk 1)) (messages s))"
  let ?ms2 = "fst (updateMany (toReader c u Delivered) (setRead (clk 2)) ?ms1)"
  have n: "\<not> (chatId (messages s ! k) = c \<and> receiver (messages s ! k) = u)"
    using assms(2) ValidToken by auto
  have 1: "?ms1 ! k = messages s ! k"
    using assms(1) n by (intro updateMany_nth_skip) (auto simp: toReader_def)
  have "?ms2 ! k = ?ms1 ! k"
    by (rule updateMany_nth_skip) (use assms(1) n 1 in \<open>auto simp: updateMany_length toReader_def\<close>)
  then have 2: "?ms2 ! k = messages s ! k" using 1 by simp
  show ?thesis using 2 by (simp add: ValidToken Let_def updateMany_length)
qed simp_all

lemma post_messages_delivered_nth:
  assumes "k < length (messages s)" and "i \<noteq> mid (messages s ! k)"
  shows "messages (fst (post_messages_delivered clk up a i s)) ! k = messages s ! k
         \<and> length (messages (fst (post_messages_delivered clk up a i s))) = length (messages s)"
proof (cases a)
  case (ValidToken u)
  let ?r = "findOneAndUpdate (\<lambda>m. mid m = i \<and> status m = Sent) (setDelivered (clk 0)) (messages s)"
  have "fst ?r ! k = messages s ! k" and "length (fst ?r) = length (messages s)"
    using assms by (simp_all add: findOneAndUpdate_nth findOneAndUpdate_length)
  then show ?thesis
    by (cases ?r) (auto simp: ValidToken split: option.splits)
qed simp_all

text \<open>An event that is not a signal for the message at position \<open>k\<close> leaves it as it is.\<close>

lemma quiet_step:
  assumes "sound s" and "k < length (messages s)" and "\<not> signals e (messages s ! k) s"
  shows "messages (step e s) ! k = messages s ! k \<and> k < length (messages (step e s))"
proof (cases e)
  case (OnConnection sock)
  then show ?thesis using assms by (simp add: connection_def)
next
  case (OnTimer t u)
  then show ?thesis using assms by (simp add: updateUserOnlineStatus_def)
next
  case (OnDisconnect t i)
  then show ?thesis
    using assms by (simp add: disconnect_def updateUserOfflineStatus_def split: option.splits)
next
  case (OnSendMessage clk up i receiverId content')
  show ?thesis
  proof (cases "socketById i s")
    case None
    then show ?thesis using assms OnSendMessage by simp
  next
    case (Some sock)
    obtain s' out where r: "send_message clk up sock receiverId content' s = (s', out)" by force
    have ib: "ids_below s" using assms(1) by (simp add: sound_def ids_below_def list_all_iff)
    have "messages s' ! k = messages s ! k \<and> k < length (messages s')"
      using send_message_effect [OF ib r] assms(2) by (auto simp: nth_append)
    then show ?thesis using OnSendMessage Some r by simp
  qed
next
  case (OnMessageRead clk up i c)
  show ?thesis
  proof (cases "socketById i s")
    case None
    then show ?thesis using assms OnMessageRead by simp
  next
    case (Some sock)
    then have "\<not> (chatId (messages s ! k) = c \<and> receiver (messages s ! k) = userId sock)"
      using assms(3) OnMessageRead by auto
    then show ?thesis
      using assms(2) OnMessageRead Some
      by (simp add: message_read_def Let_def message_read_updates_nth
            message_read_updates_length)
  qed
next
  case (PostMessagesSend clk up a receiverId content')
  obtain s' resp where r: "post_messages_send clk up a receiverId content' s = (s', resp)"
    by force
  have "messages s' ! k = messages s ! k \<and> k < length (messages s')"
    using post_messages_send_effect [OF r] assms(2) by (auto simp: nth_append)
  then show ?thesis using PostMessagesSend r by simp
next
  case (PostMessagesDelivered clk up a i)
  then show ?thesis
    using assms(2,3) post_messages_delivered_nth [of k s i clk up a] by simp
next
  case (PostMessagesRead clk up a c)
  then show ?thesis
    using assms(2,3) post_messages_read_nth [of k s c a clk up] by simp
qed

lemma sound_step': "sound s \<Longrightarrow> sound (step e s)"
  unfolding sound_def by (rule sound_step)

lemma quiet_run:
  "sound s \<Longrightarrow> k < length (messages s) \<Longrightarrow> quiet (messages s ! k) evs s \<Longrightarrow>
   messages (run evs s) ! k = messages s ! k"
proof (induction evs arbitrary: s)
  case Nil
  then show ?case by simp
next
  case (Cons e evs)
  have q: "\<not> signals e (messages s ! k) s" and rest: "quiet (messages s ! k) evs (step e s)"
    using Cons.prems(3) by simp_all
  note st = quiet_step [OF Cons.prems(1,2) q]
  have "messages (run evs (step e s)) ! k = messages (step e s) ! k"
    using sound_step' [OF Cons.prems(1)] st rest by (intro Cons.IH) simp_all
  then show ?case using st by simp
qed

lemma send_message_offline:
  assumes "findSocket r (sockets s) = None" and "trim c \<noteq> []"
  shows "\<exists>ch s0. findOrCreateChat (userId sock) r s = (ch, s0)
           \<and> send_message clk True sock (Some r) (Some c) s =
               (s0\<lparr>messages := messages s @
                      [newMessage (nextId s0) (cid ch) (userId sock) r (toWellFormed (trim c))
                         (clk 0)],
                   nextId := Suc (nextId s0)\<rparr>,
                [(sid sock, MessageSent (nextId s0) (cid ch) (trim c) (clk 0)),
                 (sid sock, ChatUpdated (cid ch) (userId sock) (fullName sock) (trim c) (clk 0)),
                 (sid sock, MessageSent (nextId s0) (cid ch) (trim c) (clk 0))])"
proof -
  obtain x xs where c: "c = x # xs" using assms(2) by (cases c) (auto simp: trim_Nil)
  obtain ch s0 where f: "findOrCreateChat (userId sock) r s = (ch, s0)" by force
  note k = findOrCreateChat_keeps [OF f]
  show ?thesis
    using assms k
    by (simp add: c f send_message_def send_message_finish_def save_def sentAck_def
          newMessage_fields asStored_newMessage Let_def)
qed

text \<open>
  C4, as the code has it. In the server of \<open>server.js\<close>, a valid submission over the
  socket while no socket of the receiver is connected appends one message, at status
  sent with no \<open>deliveredAt\<close> and no \<open>readAt\<close>, its content the trimmed submission as the
  store encodes it; everything the handler emits goes to the
  sender's socket and nothing is a push. After any later events none of which is a read
  signal of the receiver for the chat or a delivery acknowledgment for the message (the
  receiver connecting is such an event), the stored message is the same.
\<close>

theorem offline_submission_stays_sent:
  assumes "findSocket r (sockets s) = None" and "trim c \<noteq> []" and "sound s"
  shows "\<exists>m. messages (fst (send_message clk True sock (Some r) (Some c) s)) = messages s @ [m]
           \<and> status m = Sent \<and> deliveredAt m = None \<and> readAt m = None
           \<and> sender m = userId sock \<and> receiver m = r
           \<and> content m = toWellFormed (trim c) \<and> (toWellFormed c = c \<longrightarrow> content m = trim c)
           \<and> list_all (\<lambda>e. fst e = sid sock \<and> \<not> isPush (snd e))
                (snd (send_message clk True sock (Some r) (Some c) s))
           \<and> (\<forall>evs. quiet m evs (fst (send_message clk True sock (Some r) (Some c) s)) \<longrightarrow>
                 messages (run evs (fst (send_message clk True sock (Some r) (Some c) s)))
                   ! length (messages s) = m)"
proof -
  obtain ch s0 where f: "findOrCreateChat (userId sock) r s = (ch, s0)"
    and r: "send_message clk True sock (Some r) (Some c) s =
               (s0\<lparr>messages := messages s @
                      [newMessage (nextId s0) (cid ch) (userId sock) r (toWellFormed (trim c))
                         (clk 0)],
                   nextId := Suc (nextId s0)\<rparr>,
                [(sid sock, MessageSent (nextId s0) (cid ch) (trim c) (clk 0)),
                 (sid sock, ChatUpdated (cid ch) (userId sock) (fullName sock) (trim c) (clk 0)),
                 (sid sock, MessageSent (nextId s0) (cid ch) (trim c) (clk 0))])"
    using send_message_offline [OF assms(1,2)] by blast
  let ?m = "newMessage (nextId s0) (cid ch) (userId sock) r (toWellFormed (trim c)) (clk 0)"
  let ?s' = "fst (send_message clk True sock (Some r) (Some c) s)"
  have ms: "messages ?s' = messages s @ [?m]" and nx: "nextId ?s' = Suc (nextId s0)"
    by (simp_all add: r)
  have "sound ?s'"
    unfolding sound_def ms nx
    using assms(3) findOrCreateChat_keeps [OF f]
    by (intro sound_appended(1) [of "nextId s"]) (simp_all add: sound_def)
  moreover have "length (messages s) < length (messages ?s')" by (simp add: ms)
  moreover have "messages ?s' ! length (messages s) = ?m" by (simp add: ms)
  ultimately have later: "\<forall>evs. quiet ?m evs ?s' \<longrightarrow>
      messages (run evs ?s') ! length (messages s) = ?m"
    using quiet_run [of ?s' "length (messages s)"] by auto
  have fields: "status ?m = Sent \<and> deliveredAt ?m = None \<and> readAt ?m = None
      \<and> sender ?m = userId sock \<and> receiver ?m = r
      \<and> content ?m = toWellFormed (trim c) \<and> (toWellFormed c = c \<longrightarrow> content ?m = trim c)"
    by (simp add: newMessage_fields toWellFormed_trim)
  have out: "list_all (\<lambda>e. fst e = sid sock \<and> \<not> isPush (snd e))
               (snd (send_message clk True sock (Some r) (Some c) s))"
    by (simp add: r)
  show ?thesis using ms fields out later by blast
qed

theorem offline_submission_stays_sent_witness:
  "findSocket 2 (sockets (run [OnConnection alice] init_server)) = None
   \<and> trim hi \<noteq> []
   \<and> sound (run [OnConnection alice] init_server)
   \<and> quiet \<lparr>mid = 1, chatId = 0, sender = 1, receiver = 2, content = [104, 105],
              timestamp = 1000, status = Sent, deliveredAt = None, readAt = None\<rparr>
        [OnConnection bob, OnTimer 5000 2]
        (fst (send_message (ticking 1000) True alice (Some 2) (Some hi)
                (run [OnConnection alice] init_server)))
   \<and> messages (run [OnConnection bob, OnTimer 5000 2]
                 (fst (send_message (ticking 1000) True alice (Some 2) (Some hi)
                         (run [OnConnection alice] init_server)))) ! 0
       = \<lparr>mid = 1, chatId = 0, sender = 1, receiver = 2, content = [104, 105],
          timestamp = 1000, status = Sent, deliveredAt = None, readAt = None\<rparr>"
proof -
  let ?s = "run [OnConnection alice] init_server"
  let ?s' = "fst (send_message (ticking 1000) True alice (Some 2) (Some hi) ?s)"
  let ?M = "\<lparr>mid = 1, chatId = 0, sender = 1, receiver = 2, content = [104, 105],
              timestamp = 1000, status = Sent, deliveredAt = None, readAt = None\<rparr>"
  have h1: "findSocket 2 (sockets ?s) = None" by (simp add: model_defs)
  have h2: "trim hi \<noteq> []" by (simp add: model_defs)
  have h3: "sound ?s" by (simp add: sound_def model_defs)
  have ms: "messages ?s = []" by (simp add: model_defs)
  have q: "quiet ?M [OnConnection bob, OnTimer 5000 2] ?s'" by simp
  obtain m where m: "messages ?s' = messages ?s @ [m]"
    and later: "\<forall>evs. quiet m evs ?s' \<longrightarrow> messages (run evs ?s') ! length (messages ?s) = m"
    using offline_submission_stays_sent [OF h1 h2 h3, of "ticking 1000" alice] by blast
  have "messages ?s' = [?M]" by (simp add: model_defs)
  then have eqM: "m = ?M" using m ms by simp
  have q': "quiet m [OnConnection bob, OnTimer 5000 2] ?s'" unfolding eqM by (rule q)
  have "messages (run [OnConnection bob, OnTimer 5000 2] ?s') ! length (messages ?s) = m"
    using later q' by blast
  then have "messages (run [OnConnection bob, OnTimer 5000 2] ?s') ! 0 = ?M"
    unfolding eqM ms by simp
  then show ?thesis using h1 h2 h3 q by blast
qed

theorem variant_offline_counterexample:
  "findSocket 2 (sockets (run [OnConnection alice] init_server)) = None
   \<and> map status (messages (fst (send_message_variant (ticking 1000) True alice (Some 2) (Some hi)
                                  (run [OnConnection alice] init_server)))) = [Sent]
   \<and> map deliveredAt (messages (fst (send_message_variant (ticking 1000) True alice (Some 2)
                                  (Some hi) (run [OnConnection alice] init_server))))
       = [Some 1000]"
  by (simp add: model_defs)

subsection \<open>The guarded updates\<close>

lemma forward_trans: "forward a b \<Longrightarrow> forward b c \<Longrightarrow> forward a c"
  by (auto simp: forward_def)

lemma updateMany_forward:
  assumes "k < length ms"
    and "\<And>m. flt m \<Longrightarrow> rank (status m) < rank (status (upd m))"
  shows "forward (ms ! k) (fst (updateMany flt upd ms) ! k)"
  using assms by (simp add: updateMany_nth forward_def)

lemma findOneAndUpdate_forward:
  assumes "k < length ms"
    and "\<And>m. flt m \<Longrightarrow> rank (status m) < rank (status (upd m))"
  shows "forward (ms ! k) (fst (findOneAndUpdate flt upd ms) ! k)"
  using assms
proof (induction ms arbitrary: k)
  case Nil
  then show ?case by simp
next
  case (Cons a ms)
  then show ?case by (cases k) (auto simp: forward_def)
qed

text \<open>
  The delivery acknowledgment and both read handlers filter on the current status: each
  stored message is either left exactly as it was, timestamps included, or ends at a
  later status.
\<close>

lemma guarded_paths_only_advance:
  assumes "k < length (messages s)"
  shows "forward (messages s ! k) (messages (fst (post_messages_delivered clk up a i s)) ! k)"
    and "forward (messages s ! k) (messages (fst (message_read clk up sock c s)) ! k)"
    and "forward (messages s ! k) (messages (fst (post_messages_read clk up a c s)) ! k)"
proof -
  show "forward (messages s ! k) (messages (fst (post_messages_delivered clk up a i s)) ! k)"
  proof (cases a)
    case (ValidToken u)
    let ?r = "findOneAndUpdate (\<lambda>m. mid m = i \<and> status m = Sent) (setDelivered (clk 0))
                (messages s)"
    have "forward (messages s ! k) (fst ?r ! k)"
      using assms by (rule findOneAndUpdate_forward) (simp add: setDelivered_def)
    then show ?thesis
      by (cases ?r) (auto simp: ValidToken forward_def split: option.splits)
  qed (simp_all add: forward_def)
next
  let ?u = "userId sock"
  let ?ms = "messages s"
  let ?ms1 = "fst (updateMany (toReader c ?u Delivered) (setRead (clk 0)) ?ms)"
  let ?ms2 = "fst (updateMany (\<lambda>m. toReader c ?u Sent m \<and> clk 2 - 60000 \<le> timestamp m)
                     (setDelivered (clk 3)) ?ms1)"
  let ?ms3 = "fst (updateMany
                     (\<lambda>m. toReader c ?u Delivered m \<and> notBefore (clk 4 - 5000) (deliveredAt m))
                     (setRead (clk 5)) ?ms2)"
  have 1: "forward (?ms ! k) (?ms1 ! k)"
    using assms by (rule updateMany_forward) (simp add: toReader_def setRead_def)
  have "forward (?ms1 ! k) (?ms2 ! k)"
    by (rule updateMany_forward)
       (use assms in \<open>simp_all add: updateMany_length toReader_def setDelivered_def\<close>)
  then have 2: "forward (?ms ! k) (?ms2 ! k)" using 1 forward_trans by blast
  have "forward (?ms2 ! k) (?ms3 ! k)"
    by (rule updateMany_forward)
       (use assms in \<open>simp_all add: updateMany_length toReader_def setRead_def\<close>)
  then have 3: "forward (?ms ! k) (?ms3 ! k)" using 2 forward_trans by blast
  have "forward (?ms ! k) (message_read_updates clk c ?u ?ms ! k)"
    using 1 3 by (simp add: message_read_updates_def recentSentMessages_def Let_def)
  then show "forward (messages s ! k) (messages (fst (message_read clk up sock c s)) ! k)"
    by (simp add: message_read_def Let_def forward_def)
next
  show "forward (messages s ! k) (messages (fst (post_messages_read clk up a c s)) ! k)"
  proof (cases a)
    case (ValidToken u)
    let ?ms = "messages s"
    let ?ms1 = "fst (updateMany (\<lambda>m. toReader c u Sent m \<and> clk 0 - 60000 \<le> timestamp m)
                       (setDelivered (clk 1)) ?ms)"
    let ?ms2 = "fst (updateMany (toReader c u Delivered) (setRead (clk 2)) ?ms1)"
    have 1: "forward (?ms ! k) (?ms1 ! k)"
      using assms by (rule updateMany_forward) (simp add: toReader_def setDelivered_def)
    have "forward (?ms1 ! k) (?ms2 ! k)"
      by (rule updateMany_forward)
         (use assms in \<open>simp_all add: updateMany_length toReader_def setRead_def\<close>)
    then have "forward (?ms ! k) (?ms2 ! k)" using 1 forward_trans by blast
    then show ?thesis by (simp add: ValidToken Let_def forward_def)
  qed (simp_all add: forward_def)
qed

end
